theory Spec2Isabelle
  imports Complex_Main "HOL-Library.Word" "HOL-Library.Sublist"
begin

section \<open>JavaScript strings\<close>

text \<open>
  A JavaScript string is a sequence of UTF-16 code units. The literals of the source are
  ASCII, so \<open>utf16\<close> maps each character of an Isabelle literal to its code unit.
\<close>

type_synonym char16 = "16 word"
type_synonym jsstring = "char16 list"

definition utf16 :: "string \<Rightarrow> jsstring" where
  "utf16 s = map (\<lambda>c. of_char c) s"

text \<open>
  \<open>String.prototype.trim\<close> removes the code units of the ECMAScript productions
  WhiteSpace (TAB, VT, FF, ZWNBSP and the Unicode category Zs) and LineTerminator
  (LF, CR, LS, PS) from both ends.
\<close>

definition isWhiteSpace :: "char16 \<Rightarrow> bool" where
  "isWhiteSpace c \<longleftrightarrow>
     c = 0x0009 \<or> c = 0x000A \<or> c = 0x000B \<or> c = 0x000C \<or> c = 0x000D \<or> c = 0x0020 \<or>
     c = 0x00A0 \<or> c = 0x1680 \<or> (0x2000 \<le> c \<and> c \<le> 0x200A) \<or> c = 0x2028 \<or>
     c = 0x2029 \<or> c = 0x202F \<or> c = 0x205F \<or> c = 0x3000 \<or> c = 0xFEFF"

definition trim :: "jsstring \<Rightarrow> jsstring" where
  "trim s = rev (dropWhile isWhiteSpace (rev (dropWhile isWhiteSpace s)))"

text \<open>\<open>s.startsWith(p)\<close>\<close>

definition startsWith :: "jsstring \<Rightarrow> jsstring \<Rightarrow> bool" where
  "startsWith s p \<longleftrightarrow> take (length p) s = p"

text \<open>
  \<open>s.replace(/p/g, r)\<close> for a pattern \<open>p\<close> that is a literal, non-empty string: the
  matches are found from left to right, each search resuming after the previous match,
  and the text put in place of a match is not searched again.
\<close>

function replaceAll :: "jsstring \<Rightarrow> jsstring \<Rightarrow> jsstring \<Rightarrow> jsstring" where
  "replaceAll p r s =
     (if s = [] then []
      else if p \<noteq> [] \<and> startsWith s p then r @ replaceAll p r (drop (length p) s)
      else hd s # replaceAll p r (tl s))"
  by pat_completeness auto
termination
  by (relation "measure (\<lambda>(p, r, s). length s)") auto

declare replaceAll.simps [simp del]

section \<open>Credential validation\<close>

text \<open>
  \<open>validateApiKey\<close> reads \<open>process.env.API_KEY\<close>, which is a string or
  \<open>undefined\<close> (\<open>None\<close>), and returns an object with the field \<open>valid\<close> and the
  optional field \<open>error\<close>.
\<close>

record validation =
  valid :: bool
  error :: "jsstring option"

definition msg_missing :: jsstring where
  "msg_missing = utf16 ''API Key is missing. Please check your Vercel Environment Variables.''"

definition msg_vercel :: jsstring where
  "msg_vercel = utf16 (''Configuration Error: You are using a Vercel AI Key ('' @ [CHR 0x27] @
     ''vck_...'' @ [CHR 0x27] @ ''). This app requires a standard Google Cloud API Key (starting with '' @
     [CHR 0x27] @ ''AIza...'' @ [CHR 0x27] @
     ''). Please update the API_KEY environment variable in Vercel Settings.'')"

definition quote :: char16 where
  "quote = 0x0022"

text \<open>\<open>apiKey.replace(/"/g, '').trim()\<close>\<close>

definition cleanKey :: "jsstring \<Rightarrow> jsstring" where
  "cleanKey apiKey = trim (replaceAll [quote] [] apiKey)"

definition validateApiKey :: "jsstring option \<Rightarrow> validation" where
  "validateApiKey env =
     (case env of
        None \<Rightarrow> \<lparr>valid = False, error = Some msg_missing\<rparr>
      | Some apiKey \<Rightarrow>
          if apiKey = [] then \<lparr>valid = False, error = Some msg_missing\<rparr>
          else if startsWith (cleanKey apiKey) (utf16 ''vck_'')
            then \<lparr>valid = False, error = Some msg_vercel\<rparr>
            else \<lparr>valid = True, error = None\<rparr>)"


section \<open>Report generation\<close>

text \<open>
  A thrown value is known by its \<open>message\<close> property. \<open>Thrown m\<close> is an object whose
  \<open>message\<close> is \<open>m\<close> (\<open>None\<close> when it has none); \<open>new Error(m)\<close> is
  \<open>Thrown (Some m)\<close>. \<open>Nullish\<close> is \<open>null\<close> or \<open>undefined\<close>, which a rejection can
  also carry. \<open>NullishReadError\<close> is an error object whose \<open>message\<close> is the text, not
  empty and chosen by the engine, of the \<open>TypeError\<close> that reading a property of
  \<open>null\<close> or \<open>undefined\<close> throws. A call of \<open>console.error\<close> is the list of its
  arguments, and the console is the list of the calls made, oldest first.
\<close>

datatype thrown = Thrown "jsstring option" | Nullish | NullishReadError

datatype logged = LogString jsstring | LogThrown thrown

type_synonym console = "logged list list"

text \<open>
  The hosted model is outside the program: the outcome of
  \<open>await ai.models.generateContent(...)\<close> is an input of the model, either a rejection
  or a response whose \<open>text\<close> is a string or \<open>undefined\<close>. \<open>JSON.parse\<close> is the
  parameter \<open>parse\<close>, which returns the parsed report or the error it throws.
\<close>

datatype api_outcome = Rejected thrown | Response "jsstring option"

definition msg_empty :: jsstring where
  "msg_empty = utf16 ''The AI model returned an empty response.''"

definition msg_parse :: jsstring where
  "msg_parse = utf16 ''Failed to process the AI report. Please try again.''"

definition msg_connect :: jsstring where
  "msg_connect = utf16 ''Failed to connect to Gemini API''"

definition fence :: jsstring where
  "fence = utf16 ''```''"

definition fence_json :: jsstring where
  "fence_json = utf16 ''```json''"

text \<open>\<open>text.replace(/```json/g, "").replace(/```/g, "").trim()\<close>\<close>

definition cleanText :: "jsstring \<Rightarrow> jsstring" where
  "cleanText text = trim (replaceAll fence [] (replaceAll fence_json [] text))"

text \<open>The body of the outer \<open>try\<close> block: what it returns or throws, and what it logs.\<close>

definition report_try ::
  "(jsstring \<Rightarrow> thrown + 'r) \<Rightarrow> api_outcome \<Rightarrow> (thrown + 'r) \<times> console" where
  "report_try parse outcome =
     (case outcome of
        Rejected e \<Rightarrow> (Inl e, [])
      | Response text \<Rightarrow>
          (case text of
             None \<Rightarrow> (Inl (Thrown (Some msg_empty)), [])
           | Some t \<Rightarrow>
               if t = [] then (Inl (Thrown (Some msg_empty)), [])
               else
                 (case parse (cleanText t) of
                    Inr report \<Rightarrow> (Inr report, [])
                  | Inl parseError \<Rightarrow>
                      (Inl (Thrown (Some msg_parse)),
                       [[LogString (utf16 ''JSON Parse Error:''), LogThrown parseError,
                         LogString (utf16 ''Received text:''), LogString t]]))))"

text \<open>
  The outer \<open>catch\<close>: log the error, then throw \<open>new Error(error.message || "...")\<close>.
  When the caught value is \<open>null\<close> or \<open>undefined\<close>, reading \<open>error.message\<close> throws a
  \<open>TypeError\<close> instead, after the call of \<open>console.error\<close>.
\<close>

definition generateHealthReport ::
  "(jsstring \<Rightarrow> thrown + 'r) \<Rightarrow> api_outcome \<Rightarrow> (thrown + 'r) \<times> console" where
  "generateHealthReport parse outcome =
     (case report_try parse outcome of
        (Inr report, logs) \<Rightarrow> (Inr report, logs)
      | (Inl err, logs) \<Rightarrow>
          (Inl (case err of
                  Thrown None \<Rightarrow> Thrown (Some msg_connect)
                | Thrown (Some m) \<Rightarrow> Thrown (Some (if m = [] then msg_connect else m))
                | Nullish \<Rightarrow> NullishReadError
                | NullishReadError \<Rightarrow> NullishReadError),
           logs @ [[LogString (utf16 ''Report Generation Error:''), LogThrown err]]))"


section \<open>PCM decoding\<close>

subsection \<open>The store: array buffers and channel data\<close>

text \<open>
  \<open>createAudioBufferFromPCM\<close> reads its input through a typed-array view and writes its
  output through another one, so the model has an explicit store. A store is the list of
  the storages allocated so far, the address of a storage is its index, and allocation
  appends. A storage is the data block of an \<open>ArrayBuffer\<close> (bytes) or the sample data of
  one channel of an \<open>AudioBuffer\<close>.

  A sample is a JavaScript number kept in a \<open>Float32Array\<close>. The numbers this program
  stores are \<open>k / 32768\<close> for a 16-bit integer \<open>k\<close>: dyadic rationals with a significand
  of at most 16 bits, which binary32 and binary64 represent exactly, so the division and the
  rounding of the store are exact and a sample is modelled as a real number. \<open>NaN\<close> is what
  \<open>undefined / 32768.0\<close> evaluates to.
\<close>

type_synonym byte = "8 word"
type_synonym addr = nat

datatype jsnumber = Num real | NaN

datatype storage = ArrayBuffer "byte list" | ChannelData "jsnumber list"

type_synonym store = "storage list"

datatype exception = RangeError | TypeError | NotSupportedError | IndexSizeError

text \<open>
  A \<open>Uint8Array\<close> and an \<open>Int16Array\<close> are views: the address of the buffer, the offset
  of the view in it in bytes, and the number of elements of the view.
\<close>

record Uint8Array =
  u8_buffer :: addr
  u8_byteOffset :: nat
  u8_byteLength :: nat

record Int16Array =
  i16_buffer :: addr
  i16_byteOffset :: nat
  i16_length :: nat

text \<open>The data block of the array buffer at an address; \<open>None\<close> when there is none.\<close>

definition arrayBufferData :: "store \<Rightarrow> addr \<Rightarrow> byte list option" where
  "arrayBufferData h a =
     (if a < length h
      then (case h ! a of ArrayBuffer bs \<Rightarrow> Some bs | ChannelData xs \<Rightarrow> None)
      else None)"

text \<open>
  \<open>new Int16Array(buffer, byteOffset, length)\<close>, as ECMAScript defines the construction of
  a typed array on an array buffer: a \<open>RangeError\<close> when the offset is not a multiple of
  the element size 2, a \<open>TypeError\<close> when the buffer has no data block, a \<open>RangeError\<close>
  when the view would end after the buffer.
\<close>

definition new_Int16Array :: "store \<Rightarrow> addr \<Rightarrow> nat \<Rightarrow> nat \<Rightarrow> exception + Int16Array" where
  "new_Int16Array h buf byteOffset len =
     (if byteOffset mod 2 \<noteq> 0 then Inl RangeError
      else case arrayBufferData h buf of
             None \<Rightarrow> Inl TypeError
           | Some bs \<Rightarrow>
               if byteOffset + 2 * len > length bs then Inl RangeError
               else Inr \<lparr>i16_buffer = buf, i16_byteOffset = byteOffset, i16_length = len\<rparr>)"

text \<open>
  \<open>dataInt16[i]\<close>: the two bytes at \<open>byteOffset + 2 * i\<close>, the low byte first (the byte
  order of the hosts that run this code), as one 16-bit word; \<open>undefined\<close> (\<open>None\<close>)
  outside the view.
\<close>

definition Int16Array_get :: "store \<Rightarrow> Int16Array \<Rightarrow> nat \<Rightarrow> 16 word option" where
  "Int16Array_get h v i =
     (if i < i16_length v
      then (case arrayBufferData h (i16_buffer v) of
              None \<Rightarrow> None
            | Some bs \<Rightarrow>
                (let k = i16_byteOffset v + 2 * i
                 in if k + 1 < length bs then Some (word_cat (bs ! (k + 1)) (bs ! k)) else None))
      else None)"

text \<open>\<open>x / 32768.0\<close> for an element \<open>x\<close> of an \<open>Int16Array\<close>, read as a signed integer.\<close>

definition div32768 :: "16 word option \<Rightarrow> jsnumber" where
  "div32768 x = (case x of None \<Rightarrow> NaN | Some w \<Rightarrow> Num (real_of_int (sint w) / 32768))"

text \<open>
  \<open>channelData[i] = v\<close> on the \<open>Float32Array\<close> of a channel: a write outside the array
  does nothing.
\<close>

definition Float32Array_set :: "store \<Rightarrow> addr \<Rightarrow> nat \<Rightarrow> jsnumber \<Rightarrow> store" where
  "Float32Array_set h a i v =
     (if a < length h
      then (case h ! a of
              ChannelData xs \<Rightarrow> h[a := ChannelData (xs[i := v])]
            | ArrayBuffer bs \<Rightarrow> h)
      else h)"

subsection \<open>The audio context\<close>

text \<open>
  \<open>ctx\<close> is a Web Audio \<open>AudioContext\<close>. Its \<open>createBuffer\<close> is the browser's, not
  this program's, and is modelled as the Web Audio API defines it: it throws
  \<open>NotSupportedError\<close> when an argument is zero or outside its nominal range, and returns
  otherwise a buffer of newly allocated, zero-filled channels. The nominal ranges are the
  implementation's: the record holds them. The standard requires sample rates from 8000 to
  96000 and 32 channels to be supported at least (\<open>conforming\<close>). A sample rate is an
  integer here, as in the specification's data model; the interface takes it as a binary32
  number, which is exact on the integers of the ranges that implementations support.
  \<open>length_frames\<close> is the attribute \<open>length\<close> of the buffer, and \<open>channels\<close> holds the
  addresses of its channel data.
\<close>

record AudioContext =
  minSampleRate :: int
  maxSampleRate :: int
  maxChannels :: nat

definition conforming :: "AudioContext \<Rightarrow> bool" where
  "conforming ctx \<longleftrightarrow>
     minSampleRate ctx \<le> 8000 \<and> 96000 \<le> maxSampleRate ctx \<and> 32 \<le> maxChannels ctx"

record AudioBuffer =
  numberOfChannels :: nat
  length_frames :: nat
  sampleRate :: int
  channels :: "addr list"

definition createBuffer ::
  "AudioContext \<Rightarrow> store \<Rightarrow> nat \<Rightarrow> nat \<Rightarrow> int \<Rightarrow> (exception + AudioBuffer) \<times> store" where
  "createBuffer ctx h numChannels len rate =
     (if numChannels = 0 \<or> maxChannels ctx < numChannels \<or> len = 0 \<or>
         rate < minSampleRate ctx \<or> maxSampleRate ctx < rate
      then (Inl NotSupportedError, h)
      else (Inr \<lparr>numberOfChannels = numChannels, length_frames = len, sampleRate = rate,
                 channels = [length h ..< length h + numChannels]\<rparr>,
            h @ replicate numChannels (ChannelData (replicate len (Num 0)))))"

text \<open>\<open>buffer.getChannelData(k)\<close>: the address of the data of channel \<open>k\<close>.\<close>

definition getChannelData :: "AudioBuffer \<Rightarrow> nat \<Rightarrow> exception + addr" where
  "getChannelData buffer k =
     (if k < numberOfChannels buffer then Inr (channels buffer ! k) else Inl IndexSizeError)"

subsection \<open>The decoder\<close>

text \<open>The loop \<open>for (let i = 0; i < numSamples; i++) channelData[i] = dataInt16[i] / 32768.0\<close>.\<close>

function fill_loop :: "store \<Rightarrow> Int16Array \<Rightarrow> addr \<Rightarrow> nat \<Rightarrow> nat \<Rightarrow> store" where
  "fill_loop h dataInt16 channelData i numSamples =
     (if i < numSamples
      then fill_loop (Float32Array_set h channelData i (div32768 (Int16Array_get h dataInt16 i)))
             dataInt16 channelData (Suc i) numSamples
      else h)"
  by pat_completeness auto
termination
  by (relation "measure (\<lambda>(h, d, c, i, n). n - i)") auto

declare fill_loop.simps [simp del]

text \<open>
  The optional parameter \<open>sampleRate\<close> is \<open>None\<close> when the caller leaves it out. The
  result is the buffer or the exception thrown, with the store after the call.
\<close>

definition createAudioBufferFromPCM ::
  "store \<Rightarrow> Uint8Array \<Rightarrow> AudioContext \<Rightarrow> int option \<Rightarrow> (exception + AudioBuffer) \<times> store" where
  "createAudioBufferFromPCM h data ctx sampleRateArg =
     (let rate = (case sampleRateArg of None \<Rightarrow> 24000 | Some r \<Rightarrow> r);
          numSamples = u8_byteLength data div 2
      in case new_Int16Array h (u8_buffer data) (u8_byteOffset data) numSamples of
           Inl e \<Rightarrow> (Inl e, h)
         | Inr dataInt16 \<Rightarrow>
             (case createBuffer ctx h 1 numSamples rate of
                (Inl e, h1) \<Rightarrow> (Inl e, h1)
              | (Inr buffer, h1) \<Rightarrow>
                  (case getChannelData buffer 0 of
                     Inl e \<Rightarrow> (Inl e, h1)
                   | Inr channelData \<Rightarrow>
                       (Inr buffer, fill_loop h1 dataInt16 channelData 0 numSamples))))"

subsection \<open>Reading the input and the output\<close>

text \<open>
  A \<open>Uint8Array\<close> that the program can hold lies inside an array buffer of the store. Its
  bytes are the input byte sequence of the decoder.
\<close>

definition valid_Uint8Array :: "store \<Rightarrow> Uint8Array \<Rightarrow> bool" where
  "valid_Uint8Array h data =
     (case arrayBufferData h (u8_buffer data) of
        None \<Rightarrow> False
      | Some bs \<Rightarrow> u8_byteOffset data + u8_byteLength data \<le> length bs)"

definition bytes_of :: "store \<Rightarrow> Uint8Array \<Rightarrow> byte list" where
  "bytes_of h data =
     (case arrayBufferData h (u8_buffer data) of
        None \<Rightarrow> []
      | Some bs \<Rightarrow> take (u8_byteLength data) (drop (u8_byteOffset data) bs))"

text \<open>The samples of channel \<open>k\<close> of a buffer, as \<open>getChannelData(k)\<close> shows them.\<close>

definition samples_of :: "store \<Rightarrow> AudioBuffer \<Rightarrow> nat \<Rightarrow> jsnumber list" where
  "samples_of h buffer k =
     (case h ! (channels buffer ! k) of ChannelData xs \<Rightarrow> xs | ArrayBuffer bs \<Rightarrow> [])"

text \<open>
  The specification's reading of two bytes as a signed 16-bit little-endian integer: the
  first byte is the low one, and values from 32768 on stand for the negative numbers.
\<close>

definition int16_le :: "byte \<Rightarrow> byte \<Rightarrow> int" where
  "int16_le b0 b1 =
     (let u = uint b0 + 256 * uint b1 in if u < 32768 then u else u - 65536)"


section \<open>Properties of the credential validation\<close>

lemma replaceAll_single: "replaceAll [q] [] s = filter (\<lambda>c. c \<noteq> q) s"
proof (induction s)
  case Nil
  show ?case by (simp add: replaceAll.simps)
next
  case (Cons c cs)
  show ?case
    using Cons.IH by (subst replaceAll.simps) (auto simp: startsWith_def)
qed

lemma utf16_vck: "utf16 ''vck_'' = [0x76, 0x63, 0x6B, 0x5F]"
  by (simp add: utf16_def)

lemma trim_all_space:
  assumes "\<forall>c\<in>set s. isWhiteSpace c"
  shows "trim s = []"
proof -
  from assms have d: "dropWhile isWhiteSpace s = []" by (induction s) auto
  show ?thesis unfolding trim_def d by simp
qed

lemma dropWhile_rev_keeps:
  assumes "p \<noteq> []" and "\<not> isWhiteSpace (last p)"
  shows "\<exists>t. rev (dropWhile isWhiteSpace (rev (p @ r))) = p @ t"
proof (cases "\<forall>c\<in>set r. isWhiteSpace c")
  case True
  then have "dropWhile isWhiteSpace (rev r @ rev p) = dropWhile isWhiteSpace (rev p)"
    by (simp add: dropWhile_append)
  also have "\<dots> = rev p"
    using assms by (cases p rule: rev_cases) auto
  finally show ?thesis by simp
next
  case False
  then have "dropWhile isWhiteSpace (rev r @ rev p) = dropWhile isWhiteSpace (rev r) @ rev p"
    by (auto simp: dropWhile_append)
  then show ?thesis by simp
qed

lemma cleanKey_padded:
  assumes "\<forall>c\<in>set w. c = quote \<or> isWhiteSpace c"
  shows "startsWith (cleanKey (w @ utf16 ''vck_'' @ r)) (utf16 ''vck_'')"
proof -
  let ?v = "utf16 ''vck_''"
  let ?f = "filter (\<lambda>c. c \<noteq> quote)"
  have fv: "?f ?v = ?v" by (simp add: utf16_vck quote_def)
  have "\<forall>c\<in>set (?f w). isWhiteSpace c" using assms by auto
  then have "dropWhile isWhiteSpace (?f w @ ?v @ ?f r) = dropWhile isWhiteSpace (?v @ ?f r)"
    by (simp add: dropWhile_append)
  also have "\<dots> = ?v @ ?f r"
    by (simp add: utf16_vck isWhiteSpace_def)
  finally have d: "dropWhile isWhiteSpace (?f (w @ ?v @ r)) = ?v @ ?f r"
    by (simp add: fv)
  have "?v \<noteq> []" "\<not> isWhiteSpace (last ?v)"
    by (simp_all add: utf16_vck isWhiteSpace_def)
  from dropWhile_rev_keeps [OF this, of "?f r"]
  obtain t where "rev (dropWhile isWhiteSpace (rev (?v @ ?f r))) = ?v @ t" by blast
  then have "cleanKey (w @ ?v @ r) = ?v @ t"
    unfolding cleanKey_def trim_def replaceAll_single d .
  then show ?thesis by (simp add: startsWith_def)
qed

lemma cleanKey_raw_prefix:
  assumes "startsWith k (utf16 ''vck_'')"
  shows "startsWith (cleanKey k) (utf16 ''vck_'')"
proof -
  have "length (utf16 ''vck_'') = 4" by (simp add: utf16_def)
  with assms have "take 4 k = utf16 ''vck_''" by (simp add: startsWith_def)
  with append_take_drop_id [of 4 k] have "k = [] @ utf16 ''vck_'' @ drop 4 k" by simp
  then show ?thesis
    using cleanKey_padded [of "[]" "drop 4 k"] by simp
qed

lemma cleanKey_blank:
  assumes "\<forall>c\<in>set k. c = quote \<or> isWhiteSpace c"
  shows "cleanKey k = []"
proof -
  have "\<forall>c\<in>set (filter (\<lambda>c. c \<noteq> quote) k). isWhiteSpace c" using assms by auto
  then show ?thesis
    by (simp add: cleanKey_def replaceAll_single trim_all_space)
qed

lemma msg_missing_nonempty: "msg_missing \<noteq> []"
  by (simp add: msg_missing_def utf16_def)

lemma msg_vercel_nonempty: "msg_vercel \<noteq> []"
  by (simp add: msg_vercel_def utf16_def)

text \<open>
  Claim C6. \<open>validateApiKey\<close> is a total function (no operation in it can throw) and
  its result is tagged: a missing or empty credential gives \<open>valid = False\<close> with the
  "missing" message; a credential that starts with \<open>vck_\<close> gives \<open>valid = False\<close> with
  the remediation message, and so does every non-empty credential whose cleaned form starts
  with \<open>vck_\<close>; a non-empty credential whose cleaned form does not start with
  \<open>vck_\<close> gives \<open>valid = True\<close> and no message. The result is valid exactly when it
  carries no message, and a message, when present, is one of the two non-empty texts.
\<close>

theorem validateApiKey_tagged_result:
  "(env = None \<or> env = Some [] \<longrightarrow>
      validateApiKey env = \<lparr>valid = False, error = Some msg_missing\<rparr>) \<and>
   (\<forall>k. env = Some k \<and> startsWith k (utf16 ''vck_'') \<longrightarrow>
      validateApiKey env = \<lparr>valid = False, error = Some msg_vercel\<rparr>) \<and>
   (\<forall>k. env = Some k \<and> k \<noteq> [] \<and> startsWith (cleanKey k) (utf16 ''vck_'') \<longrightarrow>
      validateApiKey env = \<lparr>valid = False, error = Some msg_vercel\<rparr>) \<and>
   (\<forall>k. env = Some k \<and> k \<noteq> [] \<and> \<not> startsWith (cleanKey k) (utf16 ''vck_'') \<longrightarrow>
      validateApiKey env = \<lparr>valid = True, error = None\<rparr>) \<and>
   (valid (validateApiKey env) \<longleftrightarrow> error (validateApiKey env) = None) \<and>
   (\<forall>m. error (validateApiKey env) = Some m \<longrightarrow> m \<noteq> [] \<and> (m = msg_missing \<or> m = msg_vercel))"
proof -
  have 1: "env = None \<or> env = Some [] \<longrightarrow>
      validateApiKey env = \<lparr>valid = False, error = Some msg_missing\<rparr>"
    by (auto simp: validateApiKey_def)
  have 2: "\<forall>k. env = Some k \<and> startsWith k (utf16 ''vck_'') \<longrightarrow>
      validateApiKey env = \<lparr>valid = False, error = Some msg_vercel\<rparr>"
  proof (intro allI impI)
    fix k assume a: "env = Some k \<and> startsWith k (utf16 ''vck_'')"
    then have "k \<noteq> []" by (auto simp: startsWith_def utf16_vck)
    with a cleanKey_raw_prefix [of k]
    show "validateApiKey env = \<lparr>valid = False, error = Some msg_vercel\<rparr>"
      by (simp add: validateApiKey_def)
  qed
  have 3: "\<forall>k. env = Some k \<and> k \<noteq> [] \<and> \<not> startsWith (cleanKey k) (utf16 ''vck_'') \<longrightarrow>
      validateApiKey env = \<lparr>valid = True, error = None\<rparr>"
    by (simp add: validateApiKey_def)
  have 6: "\<forall>k. env = Some k \<and> k \<noteq> [] \<and> startsWith (cleanKey k) (utf16 ''vck_'') \<longrightarrow>
      validateApiKey env = \<lparr>valid = False, error = Some msg_vercel\<rparr>"
    by (simp add: validateApiKey_def)
  have 4: "valid (validateApiKey env) \<longleftrightarrow> error (validateApiKey env) = None"
    by (simp add: validateApiKey_def split: option.split)
  have 5: "\<forall>m. error (validateApiKey env) = Some m \<longrightarrow>
      m \<noteq> [] \<and> (m = msg_missing \<or> m = msg_vercel)"
    using msg_missing_nonempty msg_vercel_nonempty
    by (auto simp: validateApiKey_def split: option.splits if_splits)
  show ?thesis
    by (rule conjI [OF 1 conjI [OF 2 conjI [OF 6 conjI [OF 3 conjI [OF 4 5]]]]])
qed

text \<open>
  The three outcomes at a missing credential, at \<open>vck_abc\<close> and at \<open>AIzaSy\<close>.
\<close>

theorem validateApiKey_tagged_result_witness:
  "validateApiKey None = \<lparr>valid = False, error = Some msg_missing\<rparr> \<and>
   validateApiKey (Some (utf16 ''vck_abc'')) = \<lparr>valid = False, error = Some msg_vercel\<rparr> \<and>
   validateApiKey (Some (utf16 ''AIzaSy'')) = \<lparr>valid = True, error = None\<rparr>"
proof -
  have a: "startsWith (utf16 ''vck_abc'') (utf16 ''vck_'')"
    by (simp add: startsWith_def utf16_def)
  have b: "utf16 ''AIzaSy'' \<noteq> [] \<and> \<not> startsWith (cleanKey (utf16 ''AIzaSy'')) (utf16 ''vck_'')"
    by (simp add: cleanKey_def replaceAll_single trim_def utf16_def quote_def isWhiteSpace_def
        startsWith_def)
  have 1: "validateApiKey None = \<lparr>valid = False, error = Some msg_missing\<rparr>"
    using validateApiKey_tagged_result [of None, THEN conjunct1] by simp
  have 2: "validateApiKey (Some (utf16 ''vck_abc'')) = \<lparr>valid = False, error = Some msg_vercel\<rparr>"
    using validateApiKey_tagged_result [of "Some (utf16 ''vck_abc'')", THEN conjunct2, THEN conjunct1] a
    by simp
  have 3: "validateApiKey (Some (utf16 ''AIzaSy'')) = \<lparr>valid = True, error = None\<rparr>"
    using validateApiKey_tagged_result [of "Some (utf16 ''AIzaSy'')",
        THEN conjunct2, THEN conjunct2, THEN conjunct2, THEN conjunct1] b
    by simp
  from 1 2 3 show ?thesis by simp
qed

text \<open>
  Claim C10. The prefix check is made on the cleaned key, the credential with every double
  quote deleted and the surrounding whitespace trimmed: a \<open>vck_\<close> key preceded by any
  mix of quotes and whitespace (and followed by anything) is rejected. The emptiness check is
  made on the raw credential only: a non-empty credential made of quotes and whitespace has
  an empty cleaned key and is reported valid.
\<close>

theorem validateApiKey_cleaned_prefix:
  "cleanKey k = trim (filter (\<lambda>c. c \<noteq> quote) k) \<and>
   ((\<forall>c\<in>set w. c = quote \<or> isWhiteSpace c) \<longrightarrow>
      validateApiKey (Some (w @ utf16 ''vck_'' @ r)) = \<lparr>valid = False, error = Some msg_vercel\<rparr>) \<and>
   (k \<noteq> [] \<and> (\<forall>c\<in>set k. c = quote \<or> isWhiteSpace c) \<longrightarrow>
      cleanKey k = [] \<and> validateApiKey (Some k) = \<lparr>valid = True, error = None\<rparr>)"
proof (intro conjI impI)
  show "cleanKey k = trim (filter (\<lambda>c. c \<noteq> quote) k)"
    by (simp add: cleanKey_def replaceAll_single)
next
  assume "\<forall>c\<in>set w. c = quote \<or> isWhiteSpace c"
  from cleanKey_padded [OF this, of r]
  show "validateApiKey (Some (w @ utf16 ''vck_'' @ r)) = \<lparr>valid = False, error = Some msg_vercel\<rparr>"
    by (simp add: validateApiKey_def utf16_vck)
next
  assume a: "k \<noteq> [] \<and> (\<forall>c\<in>set k. c = quote \<or> isWhiteSpace c)"
  then show "cleanKey k = []" by (simp add: cleanKey_blank)
  with a show "validateApiKey (Some k) = \<lparr>valid = True, error = None\<rparr>"
    by (simp add: validateApiKey_def startsWith_def utf16_vck)
qed

text \<open>
  A quoted, padded \<open>vck_\<close> key is rejected; the credential \<open>" \t"\<close> is accepted.
\<close>

theorem validateApiKey_cleaned_prefix_witness:
  "validateApiKey (Some ([quote, 0x20] @ utf16 ''vck_'' @ utf16 ''abc'' @ [quote]))
     = \<lparr>valid = False, error = Some msg_vercel\<rparr> \<and>
   cleanKey [quote, 0x20, 0x09, quote] = [] \<and>
   validateApiKey (Some [quote, 0x20, 0x09, quote]) = \<lparr>valid = True, error = None\<rparr>"
proof -
  have a: "\<forall>c\<in>set [quote, 0x20]. c = quote \<or> isWhiteSpace c"
    by (simp add: isWhiteSpace_def)
  have b: "[quote, 0x20, 0x09, quote] \<noteq> [] \<and> (\<forall>c\<in>set [quote, 0x20, 0x09, quote]. c = quote \<or> isWhiteSpace c)"
    by (simp add: isWhiteSpace_def)
  show ?thesis
    using validateApiKey_cleaned_prefix [of "[quote, 0x20, 0x09, quote]" "[quote, 0x20]" "utf16 ''abc'' @ [quote]"] a b
    by blast
qed

section \<open>Properties of the report generation\<close>

lemma startsWith_prefix: "startsWith s p \<longleftrightarrow> prefix p s"
  by (auto simp: startsWith_def prefix_def) (metis append_eq_conv_conj)

lemma fence_eq: "fence = [0x60, 0x60, 0x60]"
  by (simp add: fence_def utf16_def)

lemma fence_json_eq: "fence_json = [0x60, 0x60, 0x60, 0x6A, 0x73, 0x6F, 0x6E]"
  by (simp add: fence_json_def utf16_def)

lemma replaceAll_fence_Nil: "replaceAll fence [] [] = []"
  by (subst replaceAll.simps) simp

lemma length_fence: "length fence = 3"
  by (simp add: fence_def utf16_def)

lemma replaceAll_fence_match:
  assumes "prefix fence s"
  shows "replaceAll fence [] s = replaceAll fence [] (drop 3 s)"
proof -
  from assms have "s \<noteq> []" "fence \<noteq> []" "startsWith s fence"
    by (auto simp: fence_eq startsWith_prefix)
  then show ?thesis
    by (subst replaceAll.simps) (simp add: length_fence)
qed

lemma replaceAll_fence_skip:
  "\<not> prefix fence (c # cs) \<Longrightarrow> replaceAll fence [] (c # cs) = c # replaceAll fence [] cs"
  by (subst replaceAll.simps) (simp add: startsWith_prefix)

lemma replaceAll_fence_two:
  assumes "\<not> prefix [0x60, 0x60] cs"
  shows "\<not> prefix [0x60, 0x60] (replaceAll fence [] cs)"
proof (cases cs)
  case Nil
  then show ?thesis by (simp add: replaceAll_fence_Nil)
next
  case (Cons x xs)
  note c1 = Cons
  have "prefix [0x60, 0x60] fence" by (simp add: fence_eq)
  then have nx: "\<not> prefix fence (x # xs)"
    using assms c1 prefix_order.trans by blast
  show ?thesis
  proof (cases "x = 0x60")
    case False
    with nx c1 show ?thesis by (simp add: replaceAll_fence_skip)
  next
    case True
    note xb = True
    show ?thesis
    proof (cases xs)
      case Nil
      with nx c1 show ?thesis by (simp add: replaceAll_fence_skip replaceAll_fence_Nil)
    next
      case (Cons y ys)
      with assms c1 xb have y: "y \<noteq> 0x60" by auto
      then have "\<not> prefix fence (y # ys)" by (auto simp: fence_eq)
      with nx c1 Cons y show ?thesis
        by (simp add: replaceAll_fence_skip)
    qed
  qed
qed

lemma replaceAll_fence_none: "\<not> sublist fence (replaceAll fence [] s)"
proof (induction "length s" arbitrary: s rule: less_induct)
  case less
  show ?case
  proof (cases s)
    case Nil
    have "\<not> sublist fence []" by (simp add: fence_eq)
    with Nil show ?thesis by (simp add: replaceAll_fence_Nil)
  next
    case (Cons c cs)
    show ?thesis
    proof (cases "prefix fence (c # cs)")
      case True
      have "length (drop 3 (c # cs)) < length s" using Cons by simp
      from less [OF this] True Cons show ?thesis by (simp add: replaceAll_fence_match)
    next
      case False
      have ih: "\<not> sublist fence (replaceAll fence [] cs)"
        using less [of cs] Cons by simp
      have np: "\<not> prefix fence (c # replaceAll fence [] cs)"
      proof
        assume p: "prefix fence (c # replaceAll fence [] cs)"
        then have c: "c = 0x60" and "prefix [0x60, 0x60] (replaceAll fence [] cs)"
          by (auto simp: fence_eq)
        with replaceAll_fence_two [of cs] have "prefix [0x60, 0x60] cs" by blast
        with c have "prefix fence (c # cs)" by (auto simp: fence_eq)
        with False show False by simp
      qed
      have "replaceAll fence [] s = c # replaceAll fence [] cs"
        using False Cons by (simp add: replaceAll_fence_skip)
      with ih np show ?thesis
        by (simp add: sublist_Cons_right)
    qed
  qed
qed

lemma sublist_trim: "sublist (trim s) s"
proof -
  have a: "suffix (dropWhile isWhiteSpace s) s" by (rule suffix_dropWhile)
  have "suffix (dropWhile isWhiteSpace (rev (dropWhile isWhiteSpace s))) (rev (dropWhile isWhiteSpace s))"
    by (rule suffix_dropWhile)
  then have "prefix (trim s) (dropWhile isWhiteSpace s)"
    unfolding trim_def by (simp add: suffix_to_prefix)
  with a show ?thesis
    by (meson prefix_imp_sublist suffix_imp_sublist sublist_order.order_trans)
qed

lemma cleanText_no_fence: "\<not> sublist fence (cleanText t)"
  using replaceAll_fence_none [of "replaceAll fence_json [] t"] sublist_trim
  unfolding cleanText_def by (meson sublist_order.order_trans)

lemma fence_in_fence_json: "sublist fence fence_json"
  by (rule prefix_imp_sublist) (simp add: fence_eq fence_json_eq)

lemma subseq_replaceAll_delete: "subseq (replaceAll p [] s) s"
proof (induction "length s" arbitrary: s rule: less_induct)
  case less
  show ?case
  proof (cases s)
    case Nil
    then show ?thesis by (simp add: replaceAll.simps)
  next
    case (Cons c cs)
    show ?thesis
    proof (cases "p \<noteq> [] \<and> startsWith s p")
      case True
      then have "length (drop (length p) s) < length s" using Cons by simp
      from less [OF this] have "subseq (replaceAll p [] (drop (length p) s)) (drop (length p) s)" .
      moreover have "subseq (drop (length p) s) s"
        by (simp add: suffix_drop suffix_imp_subseq)
      ultimately have "subseq (replaceAll p [] (drop (length p) s)) s"
        using subseq_order.order_trans by blast
      moreover have "replaceAll p [] s = replaceAll p [] (drop (length p) s)"
        using True Cons by (subst replaceAll.simps) simp
      ultimately show ?thesis by simp
    next
      case False
      have "replaceAll p [] s = c # replaceAll p [] cs"
        using False Cons by (subst replaceAll.simps) auto
      moreover have "subseq (replaceAll p [] cs) cs" using less [of cs] Cons by simp
      ultimately show ?thesis using Cons by simp
    qed
  qed
qed

lemma subseq_cleanText: "subseq (cleanText t) t"
proof -
  have "subseq (trim (replaceAll fence [] (replaceAll fence_json [] t))) (replaceAll fence [] (replaceAll fence_json [] t))"
    by (simp add: sublist_trim sublist_imp_subseq)
  also have "subseq \<dots> (replaceAll fence_json [] t)" by (rule subseq_replaceAll_delete)
  also have "subseq \<dots> t" by (rule subseq_replaceAll_delete)
  finally show ?thesis by (simp add: cleanText_def)
qed

lemma msg_empty_nonempty: "msg_empty \<noteq> []"
  by (simp add: msg_empty_def utf16_def)

lemma msg_parse_nonempty: "msg_parse \<noteq> []"
  by (simp add: msg_parse_def utf16_def)

text \<open>
  Claim C7. When the response text is absent or of length zero, \<open>generateHealthReport\<close>
  returns no report, whatever the parser: it throws an error whose message is
  "The AI model returned an empty response.", after logging that error once.
\<close>

theorem generateHealthReport_empty_response:
  assumes "txt = None \<or> txt = Some []"
  shows "generateHealthReport parse (Response txt) =
    (Inl (Thrown (Some msg_empty)),
     [[LogString (utf16 ''Report Generation Error:''), LogThrown (Thrown (Some msg_empty))]])"
  using assms msg_empty_nonempty
  by (auto simp: generateHealthReport_def report_try_def)

text \<open>
  Both empty responses, with a parser that accepts every text.
\<close>

theorem generateHealthReport_empty_response_witness:
  "generateHealthReport (\<lambda>s. Inr s) (Response None) =
    (Inl (Thrown (Some msg_empty)),
     [[LogString (utf16 ''Report Generation Error:''), LogThrown (Thrown (Some msg_empty))]]) \<and>
   generateHealthReport (\<lambda>s. Inr s) (Response (Some [])) =
    (Inl (Thrown (Some msg_empty)),
     [[LogString (utf16 ''Report Generation Error:''), LogThrown (Thrown (Some msg_empty))]])"
  using generateHealthReport_empty_response [of None "\<lambda>s. Inr s"]
    generateHealthReport_empty_response [of "Some []" "\<lambda>s. Inr s"]
  by simp

text \<open>
  Claim C8. When the response text is present and the parser rejects the cleaned text,
  \<open>generateHealthReport\<close> logs the parse error together with the raw response text (not
  the cleaned one), and throws an error whose message is the fixed text
  "Failed to process the AI report. Please try again.": the thrown error is the same for
  every parse error.
\<close>

theorem generateHealthReport_parse_error:
  assumes "t \<noteq> []" and "parse (cleanText t) = Inl parseError"
  shows "generateHealthReport parse (Response (Some t)) =
    (Inl (Thrown (Some msg_parse)),
     [[LogString (utf16 ''JSON Parse Error:''), LogThrown parseError,
       LogString (utf16 ''Received text:''), LogString t],
      [LogString (utf16 ''Report Generation Error:''), LogThrown (Thrown (Some msg_parse))]])"
  using assms msg_parse_nonempty
  by (simp add: generateHealthReport_def report_try_def)

text \<open>
  The response \<open>```json oops```\<close> with a parser that accepts only \<open>{}\<close>.
\<close>

theorem generateHealthReport_parse_error_witness:
  "generateHealthReport
     (\<lambda>s. if s = utf16 ''{}'' then Inr () else Inl (Thrown (Some (utf16 ''Unexpected token o in JSON''))))
     (Response (Some (utf16 ''```json oops```''))) =
    (Inl (Thrown (Some msg_parse)),
     [[LogString (utf16 ''JSON Parse Error:''),
       LogThrown (Thrown (Some (utf16 ''Unexpected token o in JSON''))),
       LogString (utf16 ''Received text:''), LogString (utf16 ''```json oops```'')],
      [LogString (utf16 ''Report Generation Error:''), LogThrown (Thrown (Some msg_parse))]])"
proof -
  have c: "cleanText (utf16 ''```json oops```'') = utf16 ''oops''" by code_simp
  have a: "utf16 ''```json oops```'' \<noteq> []" by (simp add: utf16_def)
  have b: "utf16 ''oops'' \<noteq> utf16 ''{}''" by (simp add: utf16_def)
  show ?thesis
    using generateHealthReport_parse_error [of "utf16 ''```json oops```''"
        "\<lambda>s. if s = utf16 ''{}'' then Inr () else Inl (Thrown (Some (utf16 ''Unexpected token o in JSON'')))"
        "Thrown (Some (utf16 ''Unexpected token o in JSON''))"] a b
    by (simp add: c)
qed

subsection \<open>Texts whose backticks are whole fences\<close>

lemma json_eq: "utf16 ''json'' = [0x6A, 0x73, 0x6F, 0x6E]"
  by (simp add: utf16_def)

lemma fence_json_split: "fence_json = fence @ utf16 ''json''"
  by (simp add: fence_json_def fence_def utf16_def)

text \<open>Text without a backtick is copied by a replacement whose pattern starts with one.\<close>

lemma replaceAll_plain:
  assumes "hd p = 0x60" and "0x60 \<notin> set s"
  shows "replaceAll p [] (s @ r) = s @ replaceAll p [] r"
  using assms(2)
proof (induction s)
  case Nil
  show ?case by simp
next
  case (Cons c cs)
  then have c: "c \<noteq> 0x60" and ih: "replaceAll p [] (cs @ r) = cs @ replaceAll p [] r" by auto
  have "\<not> (p \<noteq> [] \<and> startsWith ((c # cs) @ r) p)"
  proof
    assume a: "p \<noteq> [] \<and> startsWith ((c # cs) @ r) p"
    then obtain q qs where p: "p = q # qs" by (cases p) auto
    with a have "q = c" by (simp add: startsWith_prefix)
    with p assms(1) c show False by simp
  qed
  then have "replaceAll p [] ((c # cs) @ r) = c # replaceAll p [] (cs @ r)"
    by (subst replaceAll.simps) auto
  with ih show ?case by simp
qed

lemma prefix_json_plain:
  assumes "0x60 \<notin> set s" and "r = [] \<or> prefix fence r"
  shows "prefix (utf16 ''json'') (s @ r) \<longleftrightarrow> prefix (utf16 ''json'') s"
proof
  assume "prefix (utf16 ''json'') s"
  then show "prefix (utf16 ''json'') (s @ r)" by (simp add: prefix_prefix)
next
  assume "prefix (utf16 ''json'') (s @ r)"
  then have "prefix (utf16 ''json'') s \<or> (\<exists>us. utf16 ''json'' = s @ us \<and> prefix us r)"
    by (simp add: prefix_append)
  then show "prefix (utf16 ''json'') s"
  proof
    assume "prefix (utf16 ''json'') s"
    then show ?thesis .
  next
    assume "\<exists>us. utf16 ''json'' = s @ us \<and> prefix us r"
    then obtain us where us: "utf16 ''json'' = s @ us" "prefix us r" by blast
    show ?thesis
    proof (cases us)
      case Nil
      with us show ?thesis by simp
    next
      case (Cons u us')
      with us(2) have "r \<noteq> []" by auto
      with assms(2) have "prefix fence r" by simp
      then obtain r' where "r = 0x60 # r'" by (auto simp: fence_eq prefix_def)
      with us(2) Cons have "u = 0x60" by simp
      with us(1) Cons have "0x60 \<in> set (utf16 ''json'')" by simp
      then show ?thesis by (simp add: json_eq)
    qed
  qed
qed

lemma no_fence_json_inside:
  assumes "0x60 \<notin> set s" and "r = [] \<or> prefix fence r"
  shows "\<not> prefix (0x60 # utf16 ''json'') (s @ r)"
    and "\<not> prefix (0x60 # 0x60 # utf16 ''json'') (s @ r)"
proof -
  show "\<not> prefix (0x60 # utf16 ''json'') (s @ r)"
  proof (cases s)
    case (Cons c cs)
    with assms(1) show ?thesis by auto
  next
    case Nil
    with assms(2) show ?thesis by (auto simp: fence_eq json_eq prefix_def)
  qed
  show "\<not> prefix (0x60 # 0x60 # utf16 ''json'') (s @ r)"
  proof (cases s)
    case (Cons c cs)
    with assms(1) show ?thesis by auto
  next
    case Nil
    with assms(2) show ?thesis by (auto simp: fence_eq json_eq prefix_def)
  qed
qed

lemma fence_json_cons: "fence_json = 0x60 # 0x60 # 0x60 # utf16 ''json''"
  by (simp add: fence_json_def utf16_def)

lemma replaceAll_skip:
  assumes "\<not> prefix p (c # cs)"
  shows "replaceAll p [] (c # cs) = c # replaceAll p [] cs"
  using assms by (subst replaceAll.simps) (simp add: startsWith_prefix)

lemma replaceAll_match:
  assumes "p \<noteq> []" and "prefix p s"
  shows "replaceAll p [] s = replaceAll p [] (drop (length p) s)"
proof -
  from assms have "s \<noteq> []" by auto
  with assms show ?thesis
    by (subst replaceAll.simps) (simp add: startsWith_prefix)
qed

lemma replaceAll_json_at_fence:
  assumes "0x60 \<notin> set s" and "r = [] \<or> prefix fence r"
  shows "replaceAll fence_json [] (fence @ s @ r) =
         (if prefix (utf16 ''json'') s then drop 4 s else fence @ s) @ replaceAll fence_json [] r"
proof (cases "prefix (utf16 ''json'') s")
  case True
  then have len: "4 \<le> length s" by (auto simp: json_eq prefix_def)
  from True have "prefix fence_json (fence @ s @ r)"
    by (simp add: fence_json_split prefix_prefix)
  then have "replaceAll fence_json [] (fence @ s @ r) =
             replaceAll fence_json [] (drop (length fence_json) (fence @ s @ r))"
    by (rule replaceAll_match [rotated]) (simp add: fence_json_cons)
  also have "drop (length fence_json) (fence @ s @ r) = drop 4 s @ r"
  proof -
    have "length fence_json = 7" by (simp add: fence_json_def utf16_def)
    then show ?thesis using len by (simp add: length_fence)
  qed
  also have "replaceAll fence_json [] (drop 4 s @ r) = drop 4 s @ replaceAll fence_json [] r"
  proof (rule replaceAll_plain)
    show "hd fence_json = 0x60" by (simp add: fence_json_cons)
    show "0x60 \<notin> set (drop 4 s)" using assms(1) by (meson in_set_dropD)
  qed
  finally show ?thesis using True by simp
next
  case False
  with prefix_json_plain [OF assms] have n0: "\<not> prefix (utf16 ''json'') (s @ r)" by simp
  note n = no_fence_json_inside [OF assms]
  have "replaceAll fence_json [] (0x60 # 0x60 # 0x60 # (s @ r)) =
        0x60 # replaceAll fence_json [] (0x60 # 0x60 # (s @ r))"
    by (rule replaceAll_skip) (simp add: fence_json_cons n0)
  also have "replaceAll fence_json [] (0x60 # 0x60 # (s @ r)) =
        0x60 # replaceAll fence_json [] (0x60 # (s @ r))"
    by (rule replaceAll_skip) (simp add: fence_json_cons n)
  also have "replaceAll fence_json [] (0x60 # (s @ r)) = 0x60 # replaceAll fence_json [] (s @ r)"
    by (rule replaceAll_skip) (simp add: fence_json_cons n)
  also have "replaceAll fence_json [] (s @ r) = s @ replaceAll fence_json [] r"
    by (rule replaceAll_plain) (simp_all add: fence_json_cons assms(1))
  finally show ?thesis using False by (simp add: fence_eq)
qed

text \<open>The two passes on a text whose backticks are whole fences.\<close>

lemma replaceAll_json_fenced:
  assumes "\<forall>s\<in>set ss. 0x60 \<notin> set s"
  shows "replaceAll fence_json [] (concat (map (\<lambda>s. fence @ s) ss)) =
         concat (map (\<lambda>s. if prefix (utf16 ''json'') s then drop 4 s else fence @ s) ss)"
  using assms
proof (induction ss)
  case Nil
  show ?case by (simp add: replaceAll.simps)
next
  case (Cons s ss)
  have r: "concat (map (\<lambda>s. fence @ s) ss) = [] \<or> prefix fence (concat (map (\<lambda>s. fence @ s) ss))"
    by (cases ss) simp_all
  from Cons.prems have s: "0x60 \<notin> set s" by simp
  from replaceAll_json_at_fence [OF s r] Cons show ?case by simp
qed

lemma replaceAll_fence_fenced:
  assumes "\<forall>s\<in>set ss. 0x60 \<notin> set s"
  shows "replaceAll fence []
           (concat (map (\<lambda>s. if prefix (utf16 ''json'') s then drop 4 s else fence @ s) ss)) =
         concat (map (\<lambda>s. if prefix (utf16 ''json'') s then drop 4 s else s) ss)"
  using assms
proof (induction ss)
  case Nil
  show ?case by (simp add: replaceAll.simps)
next
  case (Cons s ss)
  let ?g = "\<lambda>s. if prefix (utf16 ''json'') s then drop 4 s else fence @ s"
  let ?k = "\<lambda>s. if prefix (utf16 ''json'') s then drop 4 s else s"
  from Cons have ih: "replaceAll fence [] (concat (map ?g ss)) = concat (map ?k ss)" by simp
  from Cons.prems have s: "0x60 \<notin> set s" by simp
  have hf: "hd fence = 0x60" by (simp add: fence_eq)
  show ?case
  proof (cases "prefix (utf16 ''json'') s")
    case True
    have "0x60 \<notin> set (drop 4 s)" using s by (meson in_set_dropD)
    from replaceAll_plain [OF hf this, of "concat (map ?g ss)"] True ih
    show ?thesis by simp
  next
    case False
    have "replaceAll fence [] (fence @ s @ concat (map ?g ss)) =
          replaceAll fence [] (drop 3 (fence @ s @ concat (map ?g ss)))"
      by (rule replaceAll_fence_match) simp
    also have "drop 3 (fence @ s @ concat (map ?g ss)) = s @ concat (map ?g ss)"
      by (simp add: fence_eq)
    also have "replaceAll fence [] (s @ concat (map ?g ss)) = s @ replaceAll fence [] (concat (map ?g ss))"
      by (rule replaceAll_plain [OF hf s])
    finally show ?thesis using False ih by simp
  qed
qed

lemma cleanText_fenced:
  assumes "0x60 \<notin> set s0" and "\<forall>s\<in>set ss. 0x60 \<notin> set s"
  shows "cleanText (s0 @ concat (map (\<lambda>s. fence @ s) ss)) =
         trim (s0 @ concat (map (\<lambda>s. if prefix (utf16 ''json'') s then drop 4 s else s) ss))"
proof -
  let ?g = "\<lambda>s. if prefix (utf16 ''json'') s then drop 4 s else fence @ s"
  have "replaceAll fence_json [] (s0 @ concat (map (\<lambda>s. fence @ s) ss)) =
        s0 @ replaceAll fence_json [] (concat (map (\<lambda>s. fence @ s) ss))"
    by (rule replaceAll_plain) (simp_all add: fence_json_cons assms(1))
  also have "\<dots> = s0 @ concat (map ?g ss)"
    by (simp add: replaceAll_json_fenced [OF assms(2)])
  finally have 1: "replaceAll fence_json [] (s0 @ concat (map (\<lambda>s. fence @ s) ss)) =
        s0 @ concat (map ?g ss)" .
  have "replaceAll fence [] (s0 @ concat (map ?g ss)) = s0 @ replaceAll fence [] (concat (map ?g ss))"
    by (rule replaceAll_plain) (simp_all add: fence_eq assms(1))
  then show ?thesis
    unfolding cleanText_def 1 by (simp add: replaceAll_fence_fenced [OF assms(2)])
qed

text \<open>
  Claim C9. Both replacements are global. The cleaned text contains no occurrence of
  \<open>```\<close>, hence none of \<open>```json\<close>, at any position, and it is obtained from the
  response text by deleting characters only. On a text whose backticks all belong to fences,
  that is a text \<open>s0 ``` s1 ``` s2 ...\<close> with no backtick in the \<open>si\<close>, every fence is
  deleted, and with it the word \<open>json\<close> where it follows the fence directly, however many
  fences there are and wherever they stand; what remains is trimmed. The parser is applied
  to the cleaned text, so a fence inside the JSON content is deleted before parsing, as in
  the two examples.
\<close>

theorem cleanText_removes_every_fence:
  \<open>\<not> sublist fence (cleanText t) \<and> \<not> sublist fence_json (cleanText t) \<and>
   subseq (cleanText t) t \<and>
   (0x60 \<notin> set s0 \<and> (\<forall>s\<in>set ss. 0x60 \<notin> set s) \<longrightarrow>
      cleanText (s0 @ concat (map (\<lambda>s. fence @ s) ss)) =
        trim (s0 @ concat (map (\<lambda>s. if prefix (utf16 ''json'') s then drop 4 s else s) ss))) \<and>
   (t \<noteq> [] \<longrightarrow>
      fst (generateHealthReport parse (Response (Some t))) =
        (case parse (cleanText t) of
           Inl parseError \<Rightarrow> Inl (Thrown (Some msg_parse))
         | Inr report \<Rightarrow> Inr report)) \<and>
   cleanText (utf16 ''```json {"a":"x```y"} ```'') = utf16 ''{"a":"xy"}'' \<and>
   cleanText (utf16 ''```json{}``` ```json'') = utf16 ''{}''\<close>
proof -
  have 1: "\<not> sublist fence (cleanText t)" by (rule cleanText_no_fence)
  then have 2: "\<not> sublist fence_json (cleanText t)"
    using fence_in_fence_json sublist_order.order_trans by blast
  have 3: "t \<noteq> [] \<longrightarrow>
      fst (generateHealthReport parse (Response (Some t))) =
        (case parse (cleanText t) of
           Inl parseError \<Rightarrow> Inl (Thrown (Some msg_parse))
         | Inr report \<Rightarrow> Inr report)"
    using msg_parse_nonempty
    by (simp add: generateHealthReport_def report_try_def split: sum.split)
  have 4: \<open>cleanText (utf16 ''```json {"a":"x```y"} ```'') = utf16 ''{"a":"xy"}''\<close>
    by code_simp
  have 5: \<open>cleanText (utf16 ''```json{}``` ```json'') = utf16 ''{}''\<close>
    by code_simp
  have 6: "0x60 \<notin> set s0 \<and> (\<forall>s\<in>set ss. 0x60 \<notin> set s) \<longrightarrow>
      cleanText (s0 @ concat (map (\<lambda>s. fence @ s) ss)) =
        trim (s0 @ concat (map (\<lambda>s. if prefix (utf16 ''json'') s then drop 4 s else s) ss))"
    using cleanText_fenced [of s0 ss] by blast
  show ?thesis
    by (rule conjI [OF 1 conjI [OF 2 conjI [OF subseq_cleanText conjI [OF 6 conjI [OF 3
          conjI [OF 4 5]]]]]])
qed

text \<open>
  A fenced response with a fence inside a JSON string, with a parser that returns its input;
  and a text with three fences, two of them followed by \<open>json\<close>.
\<close>

theorem cleanText_removes_every_fence_witness:
  \<open>fst (generateHealthReport (\<lambda>s. Inr s) (Response (Some (utf16 ''```json {"a":"x```y"} ```''))))
     = Inr (utf16 ''{"a":"xy"}'') \<and>
   cleanText (utf16 ''  '' @ concat (map (\<lambda>s. fence @ s) [utf16 ''json{}'', utf16 '' '', utf16 ''json'']))
     = utf16 ''{}''\<close>
proof -
  have a: \<open>utf16 ''```json {"a":"x```y"} ```'' \<noteq> []\<close> by (simp add: utf16_def)
  have b: "0x60 \<notin> set (utf16 ''  '') \<and>
           (\<forall>s\<in>set [utf16 ''json{}'', utf16 '' '', utf16 ''json'']. 0x60 \<notin> set s)"
    by (simp add: utf16_def)
  have c: "trim (utf16 ''  '' @ concat (map (\<lambda>s. if prefix (utf16 ''json'') s then drop 4 s else s)
              [utf16 ''json{}'', utf16 '' '', utf16 ''json''])) = utf16 ''{}''"
    by (simp add: utf16_def trim_def isWhiteSpace_def)
  note t = cleanText_removes_every_fence [of \<open>utf16 ''```json {"a":"x```y"} ```''\<close>
      "utf16 ''  ''" "[utf16 ''json{}'', utf16 '' '', utf16 ''json'']" "\<lambda>s. Inr s"]
  from t a have 1: \<open>fst (generateHealthReport (\<lambda>s. Inr s)
      (Response (Some (utf16 ''```json {"a":"x```y"} ```'')))) = Inr (utf16 ''{"a":"xy"}'')\<close>
    by simp
  from t b c have 2: "cleanText (utf16 ''  '' @ concat (map (\<lambda>s. fence @ s)
      [utf16 ''json{}'', utf16 '' '', utf16 ''json''])) = utf16 ''{}''"
    by simp
  from 1 2 show ?thesis by (rule conjI)
qed


section \<open>Properties of the decoder\<close>

subsection \<open>Signed 16-bit little-endian integers\<close>

lemma uint_byte_bounds: "0 \<le> uint (b :: byte) \<and> uint b < 256"
  using uint_lt2p [of b] by simp

lemma uint_word_cat_bytes: "uint (word_cat (b1 :: byte) (b0 :: byte) :: 16 word) = uint b0 + 256 * uint b1"
proof -
  define x where "x = uint b0"
  define y where "y = uint b1"
  have x: "0 \<le> x" "x < 256" and y: "0 \<le> y" "y < 256"
    using uint_byte_bounds [of b0] uint_byte_bounds [of b1] by (simp_all add: x_def y_def)
  have "uint (word_cat b1 b0 :: 16 word) = take_bit 16 (concat_bit 8 x y)"
    by (simp add: word_cat_eq' uint_word_of_int_eq x_def y_def)
  also have "\<dots> = (x mod 256 + y * 256) mod 65536"
    by (simp add: concat_bit_eq take_bit_eq_mod push_bit_eq_mult)
  also have "x mod 256 = x" using x by simp
  also have "(x + y * 256) mod 65536 = x + y * 256" using x y by simp
  finally show ?thesis by (simp add: x_def y_def)
qed

lemma wrap16:
  fixes u :: int
  assumes "0 \<le> u" and "u < 65536"
  shows "(u + 32768) mod 65536 - 32768 = (if u < 32768 then u else u - 65536)"
proof (cases "u < 32768")
  case True
  with assms show ?thesis by simp
next
  case False
  have "u + 32768 = (u - 32768) + 65536" by arith
  then have "(u + 32768) mod 65536 = ((u - 32768) + 65536) mod 65536" by (rule arg_cong)
  also have "\<dots> = (u - 32768) mod 65536" by (simp only: mod_add_self2)
  also have "\<dots> = u - 32768" using False assms by simp
  finally show ?thesis using False by simp
qed

lemma sint_16: "sint (w :: 16 word) = (if uint w < 32768 then uint w else uint w - 65536)"
proof -
  define u where "u = uint w"
  have b: "0 \<le> u" "u < 65536" using uint_lt2p [of w] by (simp_all add: u_def)
  have "sint w = (u + 32768) mod 65536 - 32768"
    by (simp add: sint_uint signed_take_bit_eq_take_bit_shift take_bit_eq_mod u_def)
  with wrap16 [OF b] show ?thesis by (simp add: u_def)
qed

lemma sint_word_cat_bytes: "sint (word_cat (b1 :: byte) (b0 :: byte) :: 16 word) = int16_le b0 b1"
  by (simp add: sint_16 uint_word_cat_bytes int16_le_def Let_def)

lemma int16_le_range: "- 32768 \<le> int16_le b0 b1 \<and> int16_le b0 b1 \<le> 32767"
proof -
  define x where "x = uint b0"
  define y where "y = uint b1"
  have x: "0 \<le> x" "x < 256" and y: "0 \<le> y" "y < 256"
    using uint_byte_bounds [of b0] uint_byte_bounds [of b1] by (simp_all add: x_def y_def)
  have "int16_le b0 b1 = (if x + 256 * y < 32768 then x + 256 * y else x + 256 * y - 65536)"
    by (simp add: int16_le_def Let_def x_def y_def)
  with x y show ?thesis by (auto split: if_splits)
qed

subsection \<open>The store and the loop\<close>

lemma arrayBufferData_alloc:
  "arrayBufferData (h @ [ChannelData xs]) a = arrayBufferData h a"
  by (simp add: arrayBufferData_def nth_append)

lemma Int16Array_get_alloc:
  "Int16Array_get (h @ [ChannelData xs]) v i = Int16Array_get h v i"
  by (simp add: Int16Array_get_def arrayBufferData_alloc)

lemma Float32Array_set_alloc:
  "Float32Array_set (h @ [ChannelData xs]) (length h) i v = h @ [ChannelData (xs[i := v])]"
  by (simp add: Float32Array_set_def)

lemma fill_loop_alloc:
  assumes "i \<le> n" and "length xs = n"
  shows "fill_loop (h @ [ChannelData xs]) d (length h) i n =
         h @ [ChannelData (take i xs @ map (\<lambda>j. div32768 (Int16Array_get h d j)) [i..<n])]"
  using assms
proof (induction "n - i" arbitrary: i xs)
  case 0
  then have "i = n" by simp
  with 0 show ?case by (subst fill_loop.simps) simp
next
  case (Suc m)
  then have lt: "i < n" by simp
  let ?f = "\<lambda>j. div32768 (Int16Array_get h d j)"
  let ?xs = "xs[i := ?f i]"
  have step: "fill_loop (h @ [ChannelData xs]) d (length h) i n =
              fill_loop (h @ [ChannelData ?xs]) d (length h) (Suc i) n"
    using lt by (subst fill_loop.simps) (simp add: Float32Array_set_alloc Int16Array_get_alloc)
  have "m = n - Suc i" "Suc i \<le> n" "length ?xs = n" using Suc by simp_all
  from Suc.hyps(1) [OF this]
  have "fill_loop (h @ [ChannelData ?xs]) d (length h) (Suc i) n =
        h @ [ChannelData (take (Suc i) ?xs @ map ?f [Suc i..<n])]" .
  moreover have "take (Suc i) ?xs = take i xs @ [?f i]"
    using lt Suc.prems by (simp add: take_Suc_conv_app_nth)
  moreover have "[i..<n] = i # [Suc i..<n]" using lt by (simp add: upt_conv_Cons)
  ultimately show ?case using step by simp
qed

lemma createAudioBufferFromPCM_Inr:
  assumes "createAudioBufferFromPCM h data ctx arg = (Inr buffer, h')"
  shows "buffer = \<lparr>numberOfChannels = 1, length_frames = u8_byteLength data div 2,
                    sampleRate = (case arg of None \<Rightarrow> 24000 | Some r \<Rightarrow> r),
                    channels = [length h]\<rparr>"
    and "h' = h @ [ChannelData (map (\<lambda>j. div32768 (Int16Array_get h
                \<lparr>i16_buffer = u8_buffer data, i16_byteOffset = u8_byteOffset data,
                 i16_length = u8_byteLength data div 2\<rparr> j))
             [0..<u8_byteLength data div 2])]"
    and "even (u8_byteOffset data)" and "2 \<le> u8_byteLength data"
    and "minSampleRate ctx \<le> (case arg of None \<Rightarrow> 24000 | Some r \<Rightarrow> r)"
    and "(case arg of None \<Rightarrow> 24000 | Some r \<Rightarrow> r) \<le> maxSampleRate ctx"
    and "\<exists>bs. arrayBufferData h (u8_buffer data) = Some bs \<and>
           u8_byteOffset data + 2 * (u8_byteLength data div 2) \<le> length bs"
    and "1 \<le> maxChannels ctx"
proof -
  let ?n = "u8_byteLength data div 2"
  let ?r = "case arg of None \<Rightarrow> 24000 | Some r \<Rightarrow> r"
  let ?d = "\<lparr>i16_buffer = u8_buffer data, i16_byteOffset = u8_byteOffset data, i16_length = ?n\<rparr>"
  from assms obtain d where d: "new_Int16Array h (u8_buffer data) (u8_byteOffset data) ?n = Inr d"
    by (auto simp: createAudioBufferFromPCM_def Let_def split: sum.splits)
  then have dd: "d = ?d" and ev: "even (u8_byteOffset data)"
    and bs: "\<exists>bs. arrayBufferData h (u8_buffer data) = Some bs \<and>
           u8_byteOffset data + 2 * ?n \<le> length bs"
    by (auto simp: new_Int16Array_def split: if_splits option.splits)
  from assms d obtain b h1 where c: "createBuffer ctx h 1 ?n ?r = (Inr b, h1)"
    by (auto simp: createAudioBufferFromPCM_def Let_def split: sum.splits prod.splits)
  then have b: "b = \<lparr>numberOfChannels = 1, length_frames = ?n, sampleRate = ?r, channels = [length h]\<rparr>"
    and h1: "h1 = h @ [ChannelData (replicate ?n (Num 0))]"
    and n: "?n \<noteq> 0" and r: "minSampleRate ctx \<le> ?r" "?r \<le> maxSampleRate ctx"
    and m: "1 \<le> maxChannels ctx"
    by (auto simp: createBuffer_def split: if_splits)
  have g: "getChannelData b 0 = Inr (length h)" by (simp add: b getChannelData_def)
  from assms d c g have res: "buffer = b" "h' = fill_loop h1 d (length h) 0 ?n"
    by (simp_all add: createAudioBufferFromPCM_def Let_def)
  show "buffer = \<lparr>numberOfChannels = 1, length_frames = ?n, sampleRate = ?r, channels = [length h]\<rparr>"
    using res b by simp
  show "h' = h @ [ChannelData (map (\<lambda>j. div32768 (Int16Array_get h
                \<lparr>i16_buffer = u8_buffer data, i16_byteOffset = u8_byteOffset data,
                 i16_length = u8_byteLength data div 2\<rparr> j))
             [0..<u8_byteLength data div 2])]"
    using res h1 dd fill_loop_alloc [of 0 ?n "replicate ?n (Num 0)" h ?d]
    by simp
  show "even (u8_byteOffset data)" by (rule ev)
  show "2 \<le> u8_byteLength data" using n by simp
  show "minSampleRate ctx \<le> ?r" "?r \<le> maxSampleRate ctx" using r by simp_all
  show "\<exists>bs. arrayBufferData h (u8_buffer data) = Some bs \<and>
           u8_byteOffset data + 2 * ?n \<le> length bs" by (rule bs)
  show "1 \<le> maxChannels ctx" by (rule m)
qed

lemma createAudioBufferFromPCM_Inl:
  assumes "createAudioBufferFromPCM h data ctx arg = (Inl e, h')"
  shows "h' = h"
  using assms
  by (auto simp: createAudioBufferFromPCM_def Let_def createBuffer_def getChannelData_def
      split: sum.splits prod.splits if_splits)

lemma createAudioBufferFromPCM_returns:
  assumes "valid_Uint8Array h data" and "even (u8_byteOffset data)" and "2 \<le> u8_byteLength data"
    and "1 \<le> maxChannels ctx"
    and "minSampleRate ctx \<le> (case arg of None \<Rightarrow> 24000 | Some r \<Rightarrow> r)"
    and "(case arg of None \<Rightarrow> 24000 | Some r \<Rightarrow> r) \<le> maxSampleRate ctx"
  shows "\<exists>buffer h'. createAudioBufferFromPCM h data ctx arg = (Inr buffer, h')"
proof -
  let ?n = "u8_byteLength data div 2"
  from assms(1) obtain bs where bs: "arrayBufferData h (u8_buffer data) = Some bs"
    "u8_byteOffset data + u8_byteLength data \<le> length bs"
    by (auto simp: valid_Uint8Array_def split: option.splits)
  have "2 * ?n \<le> u8_byteLength data" by simp
  with bs have "\<not> length bs < u8_byteOffset data + 2 * ?n" by linarith
  with bs assms(2) have d: "\<exists>d. new_Int16Array h (u8_buffer data) (u8_byteOffset data) ?n = Inr d"
    by (simp add: new_Int16Array_def)
  have "?n \<noteq> 0" using assms(3) by simp
  with assms(4,5,6) d show ?thesis
    by (auto simp: createAudioBufferFromPCM_def Let_def createBuffer_def getChannelData_def)
qed

text \<open>The decoder returns a buffer on exactly these inputs, and throws on all others.\<close>

lemma createAudioBufferFromPCM_returns_iff:
  assumes "valid_Uint8Array h data"
  shows "(\<exists>buffer h'. createAudioBufferFromPCM h data ctx arg = (Inr buffer, h')) \<longleftrightarrow>
         even (u8_byteOffset data) \<and> 2 \<le> u8_byteLength data \<and> 1 \<le> maxChannels ctx \<and>
         minSampleRate ctx \<le> (case arg of None \<Rightarrow> 24000 | Some r \<Rightarrow> r) \<and>
         (case arg of None \<Rightarrow> 24000 | Some r \<Rightarrow> r) \<le> maxSampleRate ctx"
proof
  assume "\<exists>buffer h'. createAudioBufferFromPCM h data ctx arg = (Inr buffer, h')"
  then obtain buffer h' where run: "createAudioBufferFromPCM h data ctx arg = (Inr buffer, h')"
    by blast
  from createAudioBufferFromPCM_Inr(3,4,5,6,8) [OF run]
  show "even (u8_byteOffset data) \<and> 2 \<le> u8_byteLength data \<and> 1 \<le> maxChannels ctx \<and>
         minSampleRate ctx \<le> (case arg of None \<Rightarrow> 24000 | Some r \<Rightarrow> r) \<and>
         (case arg of None \<Rightarrow> 24000 | Some r \<Rightarrow> r) \<le> maxSampleRate ctx"
    by simp
next
  assume "even (u8_byteOffset data) \<and> 2 \<le> u8_byteLength data \<and> 1 \<le> maxChannels ctx \<and>
         minSampleRate ctx \<le> (case arg of None \<Rightarrow> 24000 | Some r \<Rightarrow> r) \<and>
         (case arg of None \<Rightarrow> 24000 | Some r \<Rightarrow> r) \<le> maxSampleRate ctx"
  with assms show "\<exists>buffer h'. createAudioBufferFromPCM h data ctx arg = (Inr buffer, h')"
    using createAudioBufferFromPCM_returns [of h data ctx arg] by blast
qed

lemma samples_of_result:
  assumes "createAudioBufferFromPCM h data ctx arg = (Inr buffer, h')"
  shows "samples_of h' buffer 0 =
           map (\<lambda>j. div32768 (Int16Array_get h
                  \<lparr>i16_buffer = u8_buffer data, i16_byteOffset = u8_byteOffset data,
                   i16_length = u8_byteLength data div 2\<rparr> j))
               [0..<u8_byteLength data div 2]"
  using createAudioBufferFromPCM_Inr(1,2) [OF assms]
  by (simp add: samples_of_def)

lemma bytes_of_nth:
  assumes "arrayBufferData h (u8_buffer data) = Some bs"
    and "u8_byteOffset data \<le> length bs" and "k < u8_byteLength data"
  shows "bytes_of h data ! k = bs ! (u8_byteOffset data + k)"
  using assms by (simp add: bytes_of_def)

lemma sample_nth:
  assumes "createAudioBufferFromPCM h data ctx arg = (Inr buffer, h')"
    and "i < u8_byteLength data div 2"
  shows "samples_of h' buffer 0 ! i =
         Num (real_of_int (int16_le (bytes_of h data ! (2 * i)) (bytes_of h data ! (2 * i + 1))) / 32768)"
proof -
  let ?n = "u8_byteLength data div 2"
  let ?d = "\<lparr>i16_buffer = u8_buffer data, i16_byteOffset = u8_byteOffset data, i16_length = ?n\<rparr>"
  from createAudioBufferFromPCM_Inr(7) [OF assms(1)]
  obtain bs where bs: "arrayBufferData h (u8_buffer data) = Some bs"
    "u8_byteOffset data + 2 * ?n \<le> length bs" by blast
  have k: "2 * i + 1 < u8_byteLength data" using assms(2) by linarith
  have off: "u8_byteOffset data \<le> length bs" using bs by linarith
  have b0: "bytes_of h data ! (2 * i) = bs ! (u8_byteOffset data + 2 * i)"
    using bytes_of_nth [OF bs(1) off, of "2 * i"] k by simp
  have b1: "bytes_of h data ! (2 * i + 1) = bs ! (u8_byteOffset data + 2 * i + 1)"
    using bytes_of_nth [OF bs(1) off, of "2 * i + 1"] k by (simp add: add.assoc)
  have "u8_byteOffset data + 2 * i + 1 < length bs" using bs(2) assms(2) by linarith
  then have "Int16Array_get h ?d i =
     Some (word_cat (bs ! (u8_byteOffset data + 2 * i + 1)) (bs ! (u8_byteOffset data + 2 * i)))"
    using assms(2) bs(1) by (simp add: Int16Array_get_def Let_def)
  then have "div32768 (Int16Array_get h ?d i) =
     Num (real_of_int (int16_le (bytes_of h data ! (2 * i)) (bytes_of h data ! (2 * i + 1))) / 32768)"
    using b0 b1 by (simp add: div32768_def sint_word_cat_bytes)
  then show ?thesis
    using samples_of_result [OF assms(1)] assms(2) by simp
qed

subsection \<open>The claims about the decoder\<close>

text \<open>
  Claim C2. When the decoder returns a buffer, its sample \<open>i\<close>, for every
  \<open>i < floor(len / 2)\<close>, is \<open>s / 32768\<close> where \<open>s\<close> is the signed 16-bit
  little-endian integer made of the input bytes \<open>2 * i\<close> and \<open>2 * i + 1\<close>. \<open>s\<close> lies
  between -32768 and 32767, so the sample lies in \<open>[-1, 1)\<close>; the integer 0 gives 0, the
  integer -32768 (bytes 00 80) gives -1 and the integer 32767 (bytes FF 7F) gives 32767/32768.
\<close>

theorem createAudioBufferFromPCM_sample_value:
  assumes "createAudioBufferFromPCM h data ctx arg = (Inr buffer, h')"
    and "i < u8_byteLength data div 2"
  shows "(let s = int16_le (bytes_of h data ! (2 * i)) (bytes_of h data ! (2 * i + 1));
              v = samples_of h' buffer 0 ! i
          in - 32768 \<le> s \<and> s \<le> 32767 \<and>
             v = Num (real_of_int s / 32768) \<and>
             - 1 \<le> real_of_int s / 32768 \<and> real_of_int s / 32768 < 1 \<and>
             (s = 0 \<longrightarrow> v = Num 0) \<and>
             (s = - 32768 \<longrightarrow> v = Num (- 1)) \<and>
             (s = 32767 \<longrightarrow> v = Num (32767 / 32768))) \<and>
         int16_le 0x00 0x00 = 0 \<and> int16_le 0x00 0x80 = - 32768 \<and> int16_le 0xFF 0x7F = 32767"
proof -
  define s where "s = int16_le (bytes_of h data ! (2 * i)) (bytes_of h data ! (2 * i + 1))"
  have r: "- 32768 \<le> s" "s \<le> 32767" using int16_le_range by (simp_all add: s_def)
  have v: "samples_of h' buffer 0 ! i = Num (real_of_int s / 32768)"
    using sample_nth [OF assms] by (simp add: s_def)
  have b: "- 1 \<le> real_of_int s / 32768" "real_of_int s / 32768 < 1" using r by simp_all
  have z: "int16_le 0x00 0x00 = 0" "int16_le 0x00 0x80 = - 32768" "int16_le 0xFF 0x7F = 32767"
    by (simp_all add: int16_le_def)
  from r v b z show ?thesis
    unfolding Let_def s_def [symmetric] by simp
qed

text \<open>
  Seven input bytes: the second sample, from the bytes FF 7F, is 32767/32768.
\<close>

theorem createAudioBufferFromPCM_sample_value_witness:
  "samples_of
     (snd (createAudioBufferFromPCM [ArrayBuffer [0x00, 0x80, 0xFF, 0x7F, 0x00, 0x00, 0x05]]
        \<lparr>u8_buffer = 0, u8_byteOffset = 0, u8_byteLength = 7\<rparr>
        \<lparr>minSampleRate = 8000, maxSampleRate = 96000, maxChannels = 32\<rparr> None))
     \<lparr>numberOfChannels = 1, length_frames = 3, sampleRate = 24000, channels = [1]\<rparr> 0 ! 1
   = Num (32767 / 32768)"
proof -
  let ?h = "[ArrayBuffer [0x00, 0x80, 0xFF, 0x7F, 0x00, 0x00, 0x05]]"
  let ?data = "\<lparr>u8_buffer = 0, u8_byteOffset = 0, u8_byteLength = 7\<rparr>"
  let ?ctx = "\<lparr>minSampleRate = 8000, maxSampleRate = 96000, maxChannels = 32\<rparr>"
  let ?buffer = "\<lparr>numberOfChannels = 1, length_frames = 3, sampleRate = 24000, channels = [1]\<rparr>"
  let ?h' = "[ArrayBuffer [0x00, 0x80, 0xFF, 0x7F, 0x00, 0x00, 0x05],
              ChannelData [Num (- 1), Num (32767 / 32768), Num 0]]"
  have run: "createAudioBufferFromPCM ?h ?data ?ctx None = (Inr ?buffer, ?h')"
    by code_simp
  have i: "(1::nat) < u8_byteLength ?data div 2" by simp
  have s: "int16_le (bytes_of ?h ?data ! (2 * 1)) (bytes_of ?h ?data ! (2 * 1 + 1)) = 32767"
    by (simp add: bytes_of_def arrayBufferData_def int16_le_def)
  from createAudioBufferFromPCM_sample_value [OF run i]
  show ?thesis unfolding Let_def s run by simp
qed

text \<open>
  The empty input does not give a buffer of length zero: \<open>createBuffer\<close> refuses the
  length 0 and the decoder throws \<open>NotSupportedError\<close>.
\<close>

theorem createAudioBufferFromPCM_empty_counterexample:
  "createAudioBufferFromPCM [ArrayBuffer []]
     \<lparr>u8_buffer = 0, u8_byteOffset = 0, u8_byteLength = 0\<rparr>
     \<lparr>minSampleRate = 8000, maxSampleRate = 96000, maxChannels = 32\<rparr> None
   = (Inl NotSupportedError, [ArrayBuffer []])"
  by (simp add: createAudioBufferFromPCM_def new_Int16Array_def arrayBufferData_def createBuffer_def)

text \<open>
  Claim C1, amended. On an input of at least two bytes in a view at an even offset, with a
  sample rate that the audio context supports, the decoder returns a buffer; and whenever it
  returns a buffer, the buffer and its channel hold \<open>floor(len / 2)\<close> samples: \<open>n\<close>
  samples for \<open>2 * n\<close> bytes and \<open>n\<close> samples for \<open>2 * n + 1\<close> bytes, the last byte
  being dropped.
\<close>

theorem createAudioBufferFromPCM_sample_count:
  "(valid_Uint8Array h data \<and> even (u8_byteOffset data) \<and> 2 \<le> u8_byteLength data \<and>
    1 \<le> maxChannels ctx \<and>
    minSampleRate ctx \<le> (case arg of None \<Rightarrow> 24000 | Some r \<Rightarrow> r) \<and>
    (case arg of None \<Rightarrow> 24000 | Some r \<Rightarrow> r) \<le> maxSampleRate ctx \<longrightarrow>
      (\<exists>buffer h'. createAudioBufferFromPCM h data ctx arg = (Inr buffer, h'))) \<and>
   (\<forall>buffer h'. createAudioBufferFromPCM h data ctx arg = (Inr buffer, h') \<longrightarrow>
      length_frames buffer = u8_byteLength data div 2 \<and>
      length (samples_of h' buffer 0) = u8_byteLength data div 2 \<and>
      (\<forall>n. u8_byteLength data = 2 * n \<or> u8_byteLength data = 2 * n + 1 \<longrightarrow>
           length_frames buffer = n \<and> length (samples_of h' buffer 0) = n))"
proof -
  have 1: "valid_Uint8Array h data \<and> even (u8_byteOffset data) \<and> 2 \<le> u8_byteLength data \<and>
    1 \<le> maxChannels ctx \<and>
    minSampleRate ctx \<le> (case arg of None \<Rightarrow> 24000 | Some r \<Rightarrow> r) \<and>
    (case arg of None \<Rightarrow> 24000 | Some r \<Rightarrow> r) \<le> maxSampleRate ctx \<longrightarrow>
      (\<exists>buffer h'. createAudioBufferFromPCM h data ctx arg = (Inr buffer, h'))"
    using createAudioBufferFromPCM_returns [of h data ctx arg] by blast
  have 2: "length_frames buffer = u8_byteLength data div 2 \<and>
      length (samples_of h' buffer 0) = u8_byteLength data div 2 \<and>
      (\<forall>n. u8_byteLength data = 2 * n \<or> u8_byteLength data = 2 * n + 1 \<longrightarrow>
           length_frames buffer = n \<and> length (samples_of h' buffer 0) = n)"
    if run: "createAudioBufferFromPCM h data ctx arg = (Inr buffer, h')" for buffer h'
  proof -
    have a: "length_frames buffer = u8_byteLength data div 2"
      using createAudioBufferFromPCM_Inr(1) [OF run] by simp
    have b: "length (samples_of h' buffer 0) = u8_byteLength data div 2"
      using samples_of_result [OF run] by simp
    have "u8_byteLength data div 2 = n"
      if "u8_byteLength data = 2 * n \<or> u8_byteLength data = 2 * n + 1" for n
      using that by auto
    with a b show ?thesis by simp
  qed
  from 1 2 show ?thesis by blast
qed

text \<open>
  Seven input bytes give three samples.
\<close>

theorem createAudioBufferFromPCM_sample_count_witness:
  "length_frames \<lparr>numberOfChannels = 1, length_frames = 3, sampleRate = 24000, channels = [1]\<rparr> = 3 \<and>
   length (samples_of
     (snd (createAudioBufferFromPCM [ArrayBuffer [0x00, 0x80, 0xFF, 0x7F, 0x00, 0x00, 0x05]]
        \<lparr>u8_buffer = 0, u8_byteOffset = 0, u8_byteLength = 7\<rparr>
        \<lparr>minSampleRate = 8000, maxSampleRate = 96000, maxChannels = 32\<rparr> None))
     \<lparr>numberOfChannels = 1, length_frames = 3, sampleRate = 24000, channels = [1]\<rparr> 0) = 3 \<and>
   fst (createAudioBufferFromPCM [ArrayBuffer [0x00, 0x80, 0xFF, 0x7F, 0x00, 0x00, 0x05]]
        \<lparr>u8_buffer = 0, u8_byteOffset = 0, u8_byteLength = 7\<rparr>
        \<lparr>minSampleRate = 8000, maxSampleRate = 96000, maxChannels = 32\<rparr> None)
     = Inr \<lparr>numberOfChannels = 1, length_frames = 3, sampleRate = 24000, channels = [1]\<rparr>"
proof -
  let ?h = "[ArrayBuffer [0x00, 0x80, 0xFF, 0x7F, 0x00, 0x00, 0x05]]"
  let ?data = "\<lparr>u8_buffer = 0, u8_byteOffset = 0, u8_byteLength = 7\<rparr>"
  let ?ctx = "\<lparr>minSampleRate = 8000, maxSampleRate = 96000, maxChannels = 32\<rparr>"
  let ?buffer = "\<lparr>numberOfChannels = 1, length_frames = 3, sampleRate = 24000, channels = [1]\<rparr>"
  let ?h' = "[ArrayBuffer [0x00, 0x80, 0xFF, 0x7F, 0x00, 0x00, 0x05],
              ChannelData [Num (- 1), Num (32767 / 32768), Num 0]]"
  have run: "createAudioBufferFromPCM ?h ?data ?ctx None = (Inr ?buffer, ?h')"
    by code_simp
  have pre: "valid_Uint8Array ?h ?data \<and> even (u8_byteOffset ?data) \<and> 2 \<le> u8_byteLength ?data \<and>
    1 \<le> maxChannels ?ctx \<and> minSampleRate ?ctx \<le> 24000 \<and> 24000 \<le> maxSampleRate ?ctx"
    by (simp add: valid_Uint8Array_def arrayBufferData_def)
  from createAudioBufferFromPCM_sample_count [of ?h ?data ?ctx None] run pre
  have "length_frames ?buffer = 7 div 2 \<and> length (samples_of ?h' ?buffer 0) = 7 div 2"
    by simp
  then show ?thesis unfolding run by simp
qed

text \<open>
  Claim C3 fails on the code. A view of two bytes at the odd offset 1 of a four-byte buffer
  is a well-formed \<open>Uint8Array\<close>, and the decoder throws \<open>RangeError\<close> on it, from
  \<open>new Int16Array\<close>; on an input of one byte it throws \<open>NotSupportedError\<close>, from
  \<open>createBuffer\<close>. In both cases the store is left as it was.
\<close>

theorem createAudioBufferFromPCM_odd_offset_throws:
  "valid_Uint8Array [ArrayBuffer [0x00, 0x00, 0x00, 0x00]]
     \<lparr>u8_buffer = 0, u8_byteOffset = 1, u8_byteLength = 2\<rparr> \<and>
   createAudioBufferFromPCM [ArrayBuffer [0x00, 0x00, 0x00, 0x00]]
     \<lparr>u8_buffer = 0, u8_byteOffset = 1, u8_byteLength = 2\<rparr>
     \<lparr>minSampleRate = 8000, maxSampleRate = 96000, maxChannels = 32\<rparr> None
   = (Inl RangeError, [ArrayBuffer [0x00, 0x00, 0x00, 0x00]]) \<and>
   createAudioBufferFromPCM [ArrayBuffer [0x07]]
     \<lparr>u8_buffer = 0, u8_byteOffset = 0, u8_byteLength = 1\<rparr>
     \<lparr>minSampleRate = 8000, maxSampleRate = 96000, maxChannels = 32\<rparr> None
   = (Inl NotSupportedError, [ArrayBuffer [0x07]])"
  by (simp add: valid_Uint8Array_def createAudioBufferFromPCM_def new_Int16Array_def
      arrayBufferData_def createBuffer_def)

text \<open>
  An empty view of a two-byte buffer: the decoder throws \<open>NotSupportedError\<close> and
  returns no buffer, new or not.
\<close>

theorem createAudioBufferFromPCM_frame_counterexample:
  "createAudioBufferFromPCM [ArrayBuffer [0x07, 0x08]]
     \<lparr>u8_buffer = 0, u8_byteOffset = 0, u8_byteLength = 0\<rparr>
     \<lparr>minSampleRate = 3000, maxSampleRate = 768000, maxChannels = 32\<rparr> None
   = (Inl NotSupportedError, [ArrayBuffer [0x07, 0x08]])"
  by (simp add: createAudioBufferFromPCM_def new_Int16Array_def arrayBufferData_def createBuffer_def)

text \<open>
  Claim C4, amended. On an input of at least two bytes in a view at an even offset, with a
  sample rate that the audio context supports, the decoder returns a buffer whose channel is
  the one storage that the call allocated, at an address that is not the array buffer of
  the input, and every storage that existed before the call is unchanged, so the input bytes
  are. On every input, whatever the decoder returns or throws, every storage that existed
  before the call is unchanged; when it throws, the store is unchanged altogether; and a
  buffer that it returns is newly allocated and is not the array buffer of the input.
\<close>

theorem createAudioBufferFromPCM_frame:
  "(valid_Uint8Array h data \<and> even (u8_byteOffset data) \<and> 2 \<le> u8_byteLength data \<and>
    1 \<le> maxChannels ctx \<and>
    minSampleRate ctx \<le> (case arg of None \<Rightarrow> 24000 | Some r \<Rightarrow> r) \<and>
    (case arg of None \<Rightarrow> 24000 | Some r \<Rightarrow> r) \<le> maxSampleRate ctx \<longrightarrow>
      (\<exists>buffer h'. createAudioBufferFromPCM h data ctx arg = (Inr buffer, h') \<and>
         take (length h) h' = h \<and> bytes_of h' data = bytes_of h data \<and>
         length h' = Suc (length h) \<and> channels buffer = [length h] \<and>
         u8_buffer data < length h \<and> u8_buffer data \<notin> set (channels buffer))) \<and>
   (\<forall>res h'. createAudioBufferFromPCM h data ctx arg = (res, h') \<longrightarrow>
      take (length h) h' = h \<and> bytes_of h' data = bytes_of h data \<and>
      (\<forall>e. res = Inl e \<longrightarrow> h' = h) \<and>
      (\<forall>buffer. res = Inr buffer \<longrightarrow>
         length h' = Suc (length h) \<and>
         (\<forall>a\<in>set (channels buffer). length h \<le> a \<and> a < length h') \<and>
         u8_buffer data < length h \<and>
         u8_buffer data \<notin> set (channels buffer)))"
proof -
  have inr: "take (length h) h' = h \<and> bytes_of h' data = bytes_of h data \<and>
         length h' = Suc (length h) \<and> channels buffer = [length h] \<and>
         u8_buffer data < length h \<and> u8_buffer data \<notin> set (channels buffer)"
    if run: "createAudioBufferFromPCM h data ctx arg = (Inr buffer, h')" for buffer h'
  proof -
    note f = createAudioBufferFromPCM_Inr [OF run]
    from f(7) have lt: "u8_buffer data < length h"
      by (auto simp: arrayBufferData_def split: if_splits)
    have "arrayBufferData h' (u8_buffer data) = arrayBufferData h (u8_buffer data)"
      unfolding f(2) by (rule arrayBufferData_alloc)
    then have "bytes_of h' data = bytes_of h data" by (simp add: bytes_of_def)
    moreover have "take (length h) h' = h" "length h' = Suc (length h)" using f(2) by simp_all
    moreover have "channels buffer = [length h]" using f(1) by simp
    ultimately show ?thesis using lt by simp
  qed
  have 1: "valid_Uint8Array h data \<and> even (u8_byteOffset data) \<and> 2 \<le> u8_byteLength data \<and>
    1 \<le> maxChannels ctx \<and>
    minSampleRate ctx \<le> (case arg of None \<Rightarrow> 24000 | Some r \<Rightarrow> r) \<and>
    (case arg of None \<Rightarrow> 24000 | Some r \<Rightarrow> r) \<le> maxSampleRate ctx \<longrightarrow>
      (\<exists>buffer h'. createAudioBufferFromPCM h data ctx arg = (Inr buffer, h') \<and>
         take (length h) h' = h \<and> bytes_of h' data = bytes_of h data \<and>
         length h' = Suc (length h) \<and> channels buffer = [length h] \<and>
         u8_buffer data < length h \<and> u8_buffer data \<notin> set (channels buffer))"
  proof
    assume "valid_Uint8Array h data \<and> even (u8_byteOffset data) \<and> 2 \<le> u8_byteLength data \<and>
      1 \<le> maxChannels ctx \<and>
      minSampleRate ctx \<le> (case arg of None \<Rightarrow> 24000 | Some r \<Rightarrow> r) \<and>
      (case arg of None \<Rightarrow> 24000 | Some r \<Rightarrow> r) \<le> maxSampleRate ctx"
    then obtain buffer h' where run: "createAudioBufferFromPCM h data ctx arg = (Inr buffer, h')"
      using createAudioBufferFromPCM_returns [of h data ctx arg] by blast
    from inr [OF run] run
    show "\<exists>buffer h'. createAudioBufferFromPCM h data ctx arg = (Inr buffer, h') \<and>
         take (length h) h' = h \<and> bytes_of h' data = bytes_of h data \<and>
         length h' = Suc (length h) \<and> channels buffer = [length h] \<and>
         u8_buffer data < length h \<and> u8_buffer data \<notin> set (channels buffer)"
      by blast
  qed
  have 2: "take (length h) h' = h \<and> bytes_of h' data = bytes_of h data \<and>
      (\<forall>e. res = Inl e \<longrightarrow> h' = h) \<and>
      (\<forall>buffer. res = Inr buffer \<longrightarrow>
         length h' = Suc (length h) \<and>
         (\<forall>a\<in>set (channels buffer). length h \<le> a \<and> a < length h') \<and>
         u8_buffer data < length h \<and>
         u8_buffer data \<notin> set (channels buffer))"
    if run: "createAudioBufferFromPCM h data ctx arg = (res, h')" for res h'
  proof (cases res)
    case (Inl e)
    with run have "h' = h" using createAudioBufferFromPCM_Inl by blast
    with Inl show ?thesis by simp
  next
    case (Inr buffer)
    with run have "createAudioBufferFromPCM h data ctx arg = (Inr buffer, h')" by simp
    from inr [OF this] Inr show ?thesis by simp
  qed
  from 1 2 show ?thesis by blast
qed

text \<open>
  Seven input bytes: the decoder returns a buffer with its channel at address 1, the input
  reads the same in the store after the call, and the input's buffer is at address 0.
\<close>

theorem createAudioBufferFromPCM_frame_witness:
  "createAudioBufferFromPCM [ArrayBuffer [0x00, 0x80, 0xFF, 0x7F, 0x00, 0x00, 0x05]]
     \<lparr>u8_buffer = 0, u8_byteOffset = 0, u8_byteLength = 7\<rparr>
     \<lparr>minSampleRate = 8000, maxSampleRate = 96000, maxChannels = 32\<rparr> None
   = (Inr \<lparr>numberOfChannels = 1, length_frames = 3, sampleRate = 24000, channels = [1]\<rparr>,
      [ArrayBuffer [0x00, 0x80, 0xFF, 0x7F, 0x00, 0x00, 0x05],
       ChannelData [Num (- 1), Num (32767 / 32768), Num 0]]) \<and>
   bytes_of [ArrayBuffer [0x00, 0x80, 0xFF, 0x7F, 0x00, 0x00, 0x05],
             ChannelData [Num (- 1), Num (32767 / 32768), Num 0]]
       \<lparr>u8_buffer = 0, u8_byteOffset = 0, u8_byteLength = 7\<rparr>
     = bytes_of [ArrayBuffer [0x00, 0x80, 0xFF, 0x7F, 0x00, 0x00, 0x05]]
         \<lparr>u8_buffer = 0, u8_byteOffset = 0, u8_byteLength = 7\<rparr> \<and>
   u8_buffer \<lparr>u8_buffer = 0, u8_byteOffset = 0, u8_byteLength = 7\<rparr>
     \<notin> set (channels \<lparr>numberOfChannels = 1, length_frames = 3, sampleRate = 24000, channels = [1]\<rparr>)"
proof -
  let ?h = "[ArrayBuffer [0x00, 0x80, 0xFF, 0x7F, 0x00, 0x00, 0x05]]"
  let ?data = "\<lparr>u8_buffer = 0, u8_byteOffset = 0, u8_byteLength = 7\<rparr>"
  let ?ctx = "\<lparr>minSampleRate = 8000, maxSampleRate = 96000, maxChannels = 32\<rparr>"
  let ?buffer = "\<lparr>numberOfChannels = 1, length_frames = 3, sampleRate = 24000, channels = [1]\<rparr>"
  let ?h' = "[ArrayBuffer [0x00, 0x80, 0xFF, 0x7F, 0x00, 0x00, 0x05],
              ChannelData [Num (- 1), Num (32767 / 32768), Num 0]]"
  have run: "createAudioBufferFromPCM ?h ?data ?ctx None = (Inr ?buffer, ?h')"
    by code_simp
  have pre: "valid_Uint8Array ?h ?data \<and> even (u8_byteOffset ?data) \<and> 2 \<le> u8_byteLength ?data \<and>
    1 \<le> maxChannels ?ctx \<and> minSampleRate ?ctx \<le> 24000 \<and> 24000 \<le> maxSampleRate ?ctx"
    by (simp add: valid_Uint8Array_def arrayBufferData_def)
  from createAudioBufferFromPCM_frame [of ?h ?data ?ctx None, THEN conjunct1] pre
  obtain buffer h' where r: "createAudioBufferFromPCM ?h ?data ?ctx None = (Inr buffer, h')"
    and p: "bytes_of h' ?data = bytes_of ?h ?data" "u8_buffer ?data \<notin> set (channels buffer)"
    by auto
  from r run have "buffer = ?buffer" "h' = ?h'" by simp_all
  with p run show ?thesis by simp
qed

text \<open>
  With the explicit sample rate 1, below what the audio context supports, and with the
  empty input at the rate 48000, the decoder throws and produces no buffer.
\<close>

theorem createAudioBufferFromPCM_rate_counterexample:
  "createAudioBufferFromPCM [ArrayBuffer [0x01, 0x02]]
     \<lparr>u8_buffer = 0, u8_byteOffset = 0, u8_byteLength = 2\<rparr>
     \<lparr>minSampleRate = 8000, maxSampleRate = 96000, maxChannels = 32\<rparr> (Some 1)
   = (Inl NotSupportedError, [ArrayBuffer [0x01, 0x02]]) \<and>
   createAudioBufferFromPCM [ArrayBuffer []]
     \<lparr>u8_buffer = 0, u8_byteOffset = 0, u8_byteLength = 0\<rparr>
     \<lparr>minSampleRate = 8000, maxSampleRate = 96000, maxChannels = 32\<rparr> (Some 48000)
   = (Inl NotSupportedError, [ArrayBuffer []])"
  by (simp add: createAudioBufferFromPCM_def new_Int16Array_def arrayBufferData_def createBuffer_def)

text \<open>
  Claim C5, amended. On an input of at least two bytes in a view at an even offset, the
  decoder called without a sample rate on a conforming audio context returns a buffer whose
  sample rate is 24000, and called with a rate \<open>r\<close> that the context supports it returns
  a buffer whose sample rate is \<open>r\<close>. Whenever it returns a buffer, the sample rate of the
  buffer is 24000 without the argument and \<open>r\<close> with it.
\<close>

theorem createAudioBufferFromPCM_sample_rate:
  "(valid_Uint8Array h data \<and> even (u8_byteOffset data) \<and> 2 \<le> u8_byteLength data \<and>
    conforming ctx \<longrightarrow>
      (\<exists>buffer h'. createAudioBufferFromPCM h data ctx None = (Inr buffer, h') \<and>
         sampleRate buffer = 24000)) \<and>
   (valid_Uint8Array h data \<and> even (u8_byteOffset data) \<and> 2 \<le> u8_byteLength data \<and>
    conforming ctx \<and> minSampleRate ctx \<le> r \<and> r \<le> maxSampleRate ctx \<longrightarrow>
      (\<exists>buffer h'. createAudioBufferFromPCM h data ctx (Some r) = (Inr buffer, h') \<and>
         sampleRate buffer = r)) \<and>
   (\<forall>buffer h'. createAudioBufferFromPCM h data ctx None = (Inr buffer, h') \<longrightarrow>
      sampleRate buffer = 24000) \<and>
   (\<forall>buffer h'. createAudioBufferFromPCM h data ctx (Some r) = (Inr buffer, h') \<longrightarrow>
      sampleRate buffer = r)"
proof -
  have 3: "sampleRate buffer = 24000"
    if "createAudioBufferFromPCM h data ctx None = (Inr buffer, h')" for buffer h'
    using createAudioBufferFromPCM_Inr(1) [OF that] by simp
  have 4: "sampleRate buffer = r"
    if "createAudioBufferFromPCM h data ctx (Some r) = (Inr buffer, h')" for buffer h'
    using createAudioBufferFromPCM_Inr(1) [OF that] by simp
  have 1: "\<exists>buffer h'. createAudioBufferFromPCM h data ctx None = (Inr buffer, h') \<and>
         sampleRate buffer = 24000"
    if "valid_Uint8Array h data \<and> even (u8_byteOffset data) \<and> 2 \<le> u8_byteLength data \<and>
        conforming ctx"
    using createAudioBufferFromPCM_returns [of h data ctx None] that 3
    by (fastforce simp: conforming_def)
  have 2: "\<exists>buffer h'. createAudioBufferFromPCM h data ctx (Some r) = (Inr buffer, h') \<and>
         sampleRate buffer = r"
    if "valid_Uint8Array h data \<and> even (u8_byteOffset data) \<and> 2 \<le> u8_byteLength data \<and>
        conforming ctx \<and> minSampleRate ctx \<le> r \<and> r \<le> maxSampleRate ctx"
    using createAudioBufferFromPCM_returns [of h data ctx "Some r"] that 4
    by (fastforce simp: conforming_def)
  from 1 2 3 4 show ?thesis by blast
qed

text \<open>
  Two input bytes, without a sample rate and with the rate 48000.
\<close>

theorem createAudioBufferFromPCM_sample_rate_witness:
  "sampleRate \<lparr>numberOfChannels = 1, length_frames = 1, sampleRate = 24000, channels = [1]\<rparr> = 24000 \<and>
   sampleRate \<lparr>numberOfChannels = 1, length_frames = 1, sampleRate = 48000, channels = [1]\<rparr> = 48000 \<and>
   fst (createAudioBufferFromPCM [ArrayBuffer [0x01, 0x02]]
          \<lparr>u8_buffer = 0, u8_byteOffset = 0, u8_byteLength = 2\<rparr>
          \<lparr>minSampleRate = 8000, maxSampleRate = 96000, maxChannels = 32\<rparr> None)
     = Inr \<lparr>numberOfChannels = 1, length_frames = 1, sampleRate = 24000, channels = [1]\<rparr> \<and>
   fst (createAudioBufferFromPCM [ArrayBuffer [0x01, 0x02]]
          \<lparr>u8_buffer = 0, u8_byteOffset = 0, u8_byteLength = 2\<rparr>
          \<lparr>minSampleRate = 8000, maxSampleRate = 96000, maxChannels = 32\<rparr> (Some 48000))
     = Inr \<lparr>numberOfChannels = 1, length_frames = 1, sampleRate = 48000, channels = [1]\<rparr>"
proof -
  let ?h = "[ArrayBuffer [0x01, 0x02]]"
  let ?data = "\<lparr>u8_buffer = 0, u8_byteOffset = 0, u8_byteLength = 2\<rparr>"
  let ?ctx = "\<lparr>minSampleRate = 8000, maxSampleRate = 96000, maxChannels = 32\<rparr>"
  let ?h' = "[ArrayBuffer [0x01, 0x02], ChannelData [Num (513 / 32768)]]"
  have run1: "createAudioBufferFromPCM ?h ?data ?ctx None =
      (Inr \<lparr>numberOfChannels = 1, length_frames = 1, sampleRate = 24000, channels = [1]\<rparr>, ?h')"
    by code_simp
  have run2: "createAudioBufferFromPCM ?h ?data ?ctx (Some 48000) =
      (Inr \<lparr>numberOfChannels = 1, length_frames = 1, sampleRate = 48000, channels = [1]\<rparr>, ?h')"
    by code_simp
  have pre: "valid_Uint8Array ?h ?data \<and> even (u8_byteOffset ?data) \<and> 2 \<le> u8_byteLength ?data \<and>
    conforming ?ctx \<and> minSampleRate ?ctx \<le> 48000 \<and> 48000 \<le> maxSampleRate ?ctx"
    by (simp add: valid_Uint8Array_def arrayBufferData_def conforming_def)
  from createAudioBufferFromPCM_sample_rate [of ?h ?data ?ctx 48000] pre run1 run2
  show ?thesis by simp
qed

end
